theory Spec2Isabelle
  imports Complex_Main
begin

section \<open>Constants of \<^verbatim>\<open>main.go\<close>\<close>

text \<open>
  \<^verbatim>\<open>const ( ApiUrl = "..."; FetchInterval = 5; FetchesAmount = 10 )\<close>.
  Durations are Go's \<^verbatim>\<open>time.Duration\<close>, a count of nanoseconds; \<^verbatim>\<open>time.Second\<close>
  is \<open>10\<^sup>9\<close> of them. All durations that occur stay far inside the 64-bit range
  (the clock is monotonic and \<^verbatim>\<open>5 * time.Second - elapsed\<close> cannot wrap for a
  non-negative \<^verbatim>\<open>elapsed\<close>), so they are modelled as \<open>int\<close>.
\<close>

definition ApiUrl :: string where
  "ApiUrl = ''http://api.nbp.pl/api/exchangerates/rates/a/eur/last/100/''"

definition FetchInterval :: int where
  "FetchInterval = 5"

definition FetchesAmount :: nat where
  "FetchesAmount = 10"

definition Second :: int where
  "Second = 1000000000"


section \<open>The decoded summary\<close>

text \<open>
  Modelled from the spec: the type \<^verbatim>\<open>base.ExchangeRatesSummary\<close> is declared in
  package \<^verbatim>\<open>base\<close>, which is not part of the sources at hand. The spec describes it
  as an ordered sequence of rate records, each with a numeric mid-rate and an
  effective date; \<^verbatim>\<open>main.go\<close> uses the fields \<^verbatim>\<open>Rates\<close>, \<^verbatim>\<open>Mid\<close> and
  \<^verbatim>\<open>EffectiveDate\<close> and the accessors \<^verbatim>\<open>Day()\<close>, \<^verbatim>\<open>Month()\<close>, \<^verbatim>\<open>Year()\<close> of the
  latter. A date is represented by what these three accessors return.

  \<^verbatim>\<open>Mid\<close> is taken to be a \<^verbatim>\<open>float64\<close>. A finite float is represented by the real
  number it denotes; Go's \<^verbatim>\<open><\<close> and \<^verbatim>\<open>>\<close> on finite floats are the order of these
  reals. JSON numbers never decode to NaN or an infinity.
\<close>

record date =
  Year :: int
  Month :: int
  Day :: int

record Rate =
  Mid :: real
  EffectiveDate :: date

record ExchangeRatesSummary =
  Rates :: "Rate list"


section \<open>Floating-point literals\<close>

text \<open>
  In \<^verbatim>\<open>item.Mid < 4.5 || item.Mid > 4.7\<close> the untyped constants are converted to
  \<^verbatim>\<open>float64\<close>, that is, rounded to the nearest representable value. Between 4 and
  8 the representable values are the multiples of \<open>2\<^sup>-\<^sup>5\<^sup>0\<close>; \<open>float64\<close> rounds a
  real in that range (none of the literals used here is a tie).
\<close>

definition float64 :: "real \<Rightarrow> real" where
  "float64 x = of_int (round (x * 2 ^ 50)) / 2 ^ 50"

definition lit_4_5 :: real where
  "lit_4_5 = 9 / 2"

definition lit_4_7 :: real where
  "lit_4_7 = 5291729562160333 / 2 ^ 50"


section \<open>\<^verbatim>\<open>fmt.Sprintf("%d/%d/%d", day, month, year)\<close>\<close>

text \<open>
  The verb \<^verbatim>\<open>%d\<close> prints an integer in base 10, without padding, with a leading
  minus sign when negative. \<^verbatim>\<open>time.Month\<close> is an integer type and \<^verbatim>\<open>%d\<close> prints
  its number (the \<^verbatim>\<open>String\<close> method is used by \<^verbatim>\<open>%s\<close> and \<^verbatim>\<open>%v\<close> only).
\<close>

definition digit_char :: "nat \<Rightarrow> char" where
  "digit_char d = ''0123456789'' ! d"

fun digits10 :: "nat \<Rightarrow> string" where
  "digits10 n = (if n < 10 then [digit_char n] else digits10 (n div 10) @ [digit_char (n mod 10)])"

declare digits10.simps [simp del]

definition fmt_d :: "int \<Rightarrow> string" where
  "fmt_d n = (if n < 0 then CHR ''-'' # digits10 (nat (- n)) else digits10 (nat n))"

definition Sprintf_date :: "int \<Rightarrow> int \<Rightarrow> int \<Rightarrow> string" where
  "Sprintf_date day month year = fmt_d day @ ''/'' @ fmt_d month @ ''/'' @ fmt_d year"

text \<open>Reading a decimal numeral back, to say what a string of digits denotes.\<close>

definition digit_val :: "char \<Rightarrow> nat" where
  "digit_val c = of_char c - 48"

definition decimal_val :: "string \<Rightarrow> nat" where
  "decimal_val cs = foldl (\<lambda>a c. 10 * a + digit_val c) 0 cs"


section \<open>The domain filter of \<^verbatim>\<open>apiQueryWorker\<close> (lines 118 to 126)\<close>

text \<open>
  \<^verbatim>\<open>
  var rateOutOfScope []string
  for _, item := range summary.Rates {
      if item.Mid < 4.5 || item.Mid > 4.7 {
          day, month, year := item.EffectiveDate.Day(), item.EffectiveDate.Month(), item.EffectiveDate.Year()
          date := fmt.Sprintf("%d/%d/%d", day, month, year)
          rateOutOfScope = append(rateOutOfScope, date)
      }
  }
  \<close>
  The loop is a recursion over the remaining items, with the slice built so far
  as accumulator.
\<close>

fun rangeRates :: "Rate list \<Rightarrow> string list \<Rightarrow> string list" where
  "rangeRates [] rateOutOfScope = rateOutOfScope"
| "rangeRates (item # rest) rateOutOfScope =
     (if Mid item < lit_4_5 \<or> Mid item > lit_4_7
      then
        (let day = Day (EffectiveDate item);
             month = Month (EffectiveDate item);
             year = Year (EffectiveDate item);
             date = Sprintf_date day month year
         in rangeRates rest (rateOutOfScope @ [date]))
      else rangeRates rest rateOutOfScope)"

definition rateOutOfScope_of :: "ExchangeRatesSummary \<Rightarrow> string list" where
  "rateOutOfScope_of summary = rangeRates (Rates summary) []"

text \<open>The words of the spec: when a record is flagged, and how its date is written.\<close>

definition flagged :: "Rate \<Rightarrow> bool" where
  "flagged item \<longleftrightarrow> Mid item < lit_4_5 \<or> Mid item > lit_4_7"

definition date_string :: "date \<Rightarrow> string" where
  "date_string d = fmt_d (Day d) @ ''/'' @ fmt_d (Month d) @ ''/'' @ fmt_d (Year d)"


section \<open>Collaborators from the standard library\<close>

text \<open>
  Go \<^verbatim>\<open>error\<close> values are represented by their messages, byte slices by strings
  (an Isabelle \<open>char\<close> is a byte). What \<^verbatim>\<open>net/http\<close>, \<^verbatim>\<open>compress/gzip\<close> and
  \<^verbatim>\<open>encoding/json\<close> compute is a parameter of the model, collected in a record:
  the program is verified for every behaviour of these packages.
\<close>

record Request =
  Method :: string
  URL :: string
  req_Header :: "string \<rightharpoonup> string"

text \<open>
  A response as the worker sees it: the status code, the header, what
  \<^verbatim>\<open>ioutil.ReadAll(response.Body)\<close> yields and what \<^verbatim>\<open>resp.Body.Close()\<close> returns.
\<close>

record Response =
  StatusCode :: int
  resp_Header :: "string \<rightharpoonup> string"
  Body :: "string + string"
  BodyClose :: "string option"

record stdlib =
  http_NewRequest :: "string \<Rightarrow> string \<Rightarrow> string + Request"
  gzip_header_rest :: "string \<Rightarrow> string option"
  gzip_ReadAll :: "string \<Rightarrow> string + string"
  json_Valid :: "string \<Rightarrow> bool"
  json_Unmarshal :: "string \<Rightarrow> string + ExchangeRatesSummary"

text \<open>\<^verbatim>\<open>Header.Get\<close> returns the empty string for a key that is absent.\<close>

definition Header_Get :: "(string \<rightharpoonup> string) \<Rightarrow> string \<Rightarrow> string" where
  "Header_Get h k = (case h k of None \<Rightarrow> [] | Some v \<Rightarrow> v)"

text \<open>
  \<^verbatim>\<open>gzip.NewReader\<close> reads the ten-byte member header first and rejects anything
  that does not start with the magic bytes \<open>1f 8b\<close> and the method byte \<open>08\<close>
  (RFC 1952); the remaining header fields are left to the parameter. The result is
  the error, if any.
\<close>

definition gzip_NewReader :: "stdlib \<Rightarrow> string \<Rightarrow> string option" where
  "gzip_NewReader lib bs =
     (if bs = [] then Some ''EOF''
      else if length bs < 10 then Some ''unexpected EOF''
      else if bs ! 0 \<noteq> CHR 0x1F \<or> bs ! 1 \<noteq> CHR 0x8B \<or> bs ! 2 \<noteq> CHR 0x08
        then Some ''gzip: invalid header''
      else gzip_header_rest lib bs)"


section \<open>\<^verbatim>\<open>prepareHttpRequest\<close>, \<^verbatim>\<open>addHeaders\<close>, \<^verbatim>\<open>decompressGzippedResponse\<close>\<close>

definition addHeaders :: "Request \<Rightarrow> Request" where
  "addHeaders req =
     req\<lparr>req_Header := (req_Header req)
       (''Host'' \<mapsto> ''api.nbp.pl'',
        ''User-Agent'' \<mapsto> ''Golang Program'',
        ''Accept-Language'' \<mapsto> ''pl-PL,pl;q=0.9,en-US;q=0.8,en;q=0.7'',
        ''Accept-Encoding'' \<mapsto> ''deflate, gzip'')\<rparr>"

definition prepareHttpRequest :: "stdlib \<Rightarrow> string + Request" where
  "prepareHttpRequest lib =
     (case http_NewRequest lib ''GET'' ApiUrl of
        Inl err \<Rightarrow> Inl (''failed to prepare HTTP GET request: '' @ err)
      | Inr req \<Rightarrow> Inr (addHeaders req))"

definition decompressGzippedResponse :: "stdlib \<Rightarrow> Response \<Rightarrow> string + string" where
  "decompressGzippedResponse lib response =
     (case Body response of
        Inl err \<Rightarrow> Inl (''failed to read compressed body content: '' @ err)
      | Inr gzipBytes \<Rightarrow>
          (case gzip_NewReader lib gzipBytes of
             Some err \<Rightarrow> Inl (''failed to create gzip reader: '' @ err)
           | None \<Rightarrow>
               (case gzip_ReadAll lib gzipBytes of
                  Inl err \<Rightarrow> Inl (''failed to read compressed body content: '' @ err)
                | Inr content \<Rightarrow> Inr content)))"


section \<open>\<^verbatim>\<open>apiQueryWorker\<close> from the response to the report (lines 88 to 126)\<close>

text \<open>
  The arguments of \<^verbatim>\<open>logger.PrintReqInfo\<close>. A call of \<^verbatim>\<open>log.Fatalf\<close> prints its
  message and ends the process with \<^verbatim>\<open>os.Exit(1)\<close>; deferred calls do not run.
\<close>

record ReqInfo =
  index :: nat
  elapsed :: int
  statusCode :: int
  contentType :: string
  isJsonValid :: bool
  rateOutOfScope :: "string list"

datatype fetched = Fatalf string | Fetched ReqInfo

definition apiQueryWorker_decode :: "stdlib \<Rightarrow> nat \<Rightarrow> int \<Rightarrow> Response \<Rightarrow> fetched" where
  "apiQueryWorker_decode lib i el resp =
     (let sc = StatusCode resp;
          ct = Header_Get (resp_Header resp) ''Content-Type''
      in case decompressGzippedResponse lib resp of
           Inl err \<Rightarrow> Fatalf (''Failed to read compressed body content: '' @ err)
         | Inr content \<Rightarrow>
             (let valid = json_Valid lib content
              in case json_Unmarshal lib content of
                   Inl err \<Rightarrow> Fatalf (''Failed to unmarshall request content: '' @ err)
                 | Inr summary \<Rightarrow>
                     Fetched \<lparr>index = i, elapsed = el, statusCode = sc, contentType = ct,
                       isJsonValid = valid, rateOutOfScope = rateOutOfScope_of summary\<rparr>))"


section \<open>The goroutines of \<^verbatim>\<open>main.go\<close> as a transition system\<close>

text \<open>
  The process consists of the main goroutine (the driver loop of \<^verbatim>\<open>main\<close>), the
  fetch units (\<^verbatim>\<open>go apiQueryWorker(i, &mu, &intervalHandler.wg)\<close>) and one
  monitor per iteration (\<^verbatim>\<open>go func() { wg.Wait(); close(waitCh) }()\<close>). Each
  goroutine is split at its synchronisation points into atomic steps; a schedule
  is a list of actions, each naming the goroutine that takes its next step or an
  input from outside (time passing, a response arriving). An action that the
  goroutine cannot take in the current state (it is blocked) yields \<open>None\<close>.
\<close>

datatype tid = T_main | T_worker nat | T_monitor nat

datatype status = Running | Exited | Panicked

text \<open>The calls of the logging collaborator, and the line \<^verbatim>\<open>log.Fatalf\<close> prints.\<close>

datatype event = BeginMarker | EndMarker | TimeoutNotice | UnitReport ReqInfo | FatalLine string

text \<open>
  One entry of the output, in the order of the calls: the call, the goroutine
  that made it, the holder of the mutex \<^verbatim>\<open>mu\<close> at that moment, and the iteration
  of the driver loop in which that goroutine was started (for the main goroutine,
  the current iteration). The last three are bookkeeping of the model.
\<close>

record entry =
  ev :: event
  caller :: tid
  lock_holder :: "tid option"
  of_cycle :: nat

text \<open>
  \<^verbatim>\<open>type IntervalHandler struct { wg sync.WaitGroup; waitCh chan int }\<close>: the
  counter of the wait group, and whether the channel has been closed (nothing is
  ever sent on it). The objects live in a heap, addressed by position.
\<close>

record IntervalHandler =
  wg :: int
  waitCh_closed :: bool

text \<open>Program points of \<^verbatim>\<open>apiQueryWorker\<close>, with the local variables alive there.\<close>

datatype wpc =
    W_Start
  | W_Sent int
  | W_Fetched ReqInfo "string option"
  | W_Locked ReqInfo "string option"
  | W_Printed "string option"
  | W_Closing "string option"
  | W_Releasing
  | W_Finished

record worker =
  w_index :: nat
  w_wg :: nat
  w_cycle :: nat
  w_pc :: wpc

datatype monpc = Mon_Wait | Mon_Close | Mon_Done

record monitor =
  m_handler :: nat
  m_pc :: monpc

text \<open>Program points of \<^verbatim>\<open>main\<close>, named after the statement that is executed next.\<close>

datatype mpc =
    M_New
  | M_Add
  | M_LockBegin
  | M_PrintBegin
  | M_UnlockBegin
  | M_Start
  | M_Spawn nat
  | M_GoMonitor
  | M_Select
  | M_Wait int
  | M_Since
  | M_Sleep int
  | M_Sleeping int
  | M_Timeout
  | M_LockEnd
  | M_PrintEnd
  | M_UnlockEnd

datatype choice = ViaDone | ViaTimer

record state =
  clock :: int
  status :: status
  mu :: "tid option"
  heap :: "IntervalHandler list"
  mpc :: mpc
  cycle :: nat
  intervalHandler :: nat
  start :: int
  resolved :: "choice option"
  workers :: "worker list"
  monitors :: "monitor list"
  out :: "entry list"

text \<open>
  \<open>Tick d\<close>: \<open>d\<close> nanoseconds pass. \<open>Main\<close>: the main goroutine executes its next
  statement. \<open>Select c\<close>: the \<^verbatim>\<open>select\<close> of \<^verbatim>\<open>main\<close> proceeds with the case \<open>c\<close>.
  \<open>Worker n\<close>: fetch unit number \<open>n\<close> (in order of creation) takes its next step.
  \<open>Recv n r\<close>: \<^verbatim>\<open>client.Do\<close> of unit \<open>n\<close> returns \<open>r\<close>. \<open>Monitor m\<close>: monitor
  number \<open>m\<close> takes its next step.
\<close>

datatype action =
    Tick nat
  | Main
  | Select choice
  | Worker nat
  | Recv nat "string + Response"
  | Monitor nat

definition init :: state where
  "init = \<lparr>clock = 0, status = Running, mu = None, heap = [], mpc = M_New, cycle = 0,
     intervalHandler = 0, start = 0, resolved = None, workers = [], monitors = [], out = []\<rparr>"

definition log_line :: "tid \<Rightarrow> nat \<Rightarrow> event \<Rightarrow> state \<Rightarrow> state" where
  "log_line t c e s = s\<lparr>out := out s @ [\<lparr>ev = e, caller = t, lock_holder = mu s, of_cycle = c\<rparr>]\<rparr>"

text \<open>\<^verbatim>\<open>log.Fatalf\<close>: print, then \<^verbatim>\<open>os.Exit(1)\<close>.\<close>

definition log_Fatalf :: "tid \<Rightarrow> nat \<Rightarrow> string \<Rightarrow> state \<Rightarrow> state" where
  "log_Fatalf t c msg s = (log_line t c (FatalLine msg) s)\<lparr>status := Exited\<rparr>"

text \<open>\<^verbatim>\<open>mu.Unlock()\<close>; unlocking an unlocked mutex is a fatal runtime error.\<close>

definition mu_Unlock :: "state \<Rightarrow> state" where
  "mu_Unlock s = (if mu s = None then s\<lparr>status := Panicked\<rparr> else s\<lparr>mu := None\<rparr>)"

text \<open>\<^verbatim>\<open>wg.Add(n)\<close> and \<^verbatim>\<open>wg.Done()\<close>; a negative counter panics.\<close>

definition wg_Add :: "nat \<Rightarrow> int \<Rightarrow> state \<Rightarrow> state" where
  "wg_Add h n s =
     (if wg (heap s ! h) + n < 0 then s\<lparr>status := Panicked\<rparr>
      else s\<lparr>heap := (heap s)[h := (heap s ! h)\<lparr>wg := wg (heap s ! h) + n\<rparr>]\<rparr>)"

definition wg_Done :: "nat \<Rightarrow> state \<Rightarrow> state" where
  "wg_Done h s = wg_Add h (- 1) s"

text \<open>\<^verbatim>\<open>close(ch)\<close>; closing a closed channel panics.\<close>

definition close_waitCh :: "nat \<Rightarrow> state \<Rightarrow> state" where
  "close_waitCh h s =
     (if waitCh_closed (heap s ! h) then s\<lparr>status := Panicked\<rparr>
      else s\<lparr>heap := (heap s)[h := (heap s ! h)\<lparr>waitCh_closed := True\<rparr>]\<rparr>)"

text \<open>A goroutine goes on after a call only if the call has not brought the process down.\<close>

definition continue :: "(state \<Rightarrow> state) \<Rightarrow> state \<Rightarrow> state" where
  "continue f s = (if status s = Running then f s else s)"

definition set_wpc :: "nat \<Rightarrow> wpc \<Rightarrow> state \<Rightarrow> state" where
  "set_wpc n pc s = s\<lparr>workers := (workers s)[n := (workers s ! n)\<lparr>w_pc := pc\<rparr>]\<rparr>"

definition set_mpc :: "nat \<Rightarrow> monpc \<Rightarrow> state \<Rightarrow> state" where
  "set_mpc m pc s = s\<lparr>monitors := (monitors s)[m := (monitors s ! m)\<lparr>m_pc := pc\<rparr>]\<rparr>"

subsection \<open>\<^verbatim>\<open>main\<close>, lines 32 to 67\<close>

definition main_step :: "state \<Rightarrow> state option" where
  "main_step s =
     (case mpc s of
        M_New \<Rightarrow>
          Some (s\<lparr>heap := heap s @ [\<lparr>wg = 0, waitCh_closed = False\<rparr>],
                  intervalHandler := length (heap s), mpc := M_Add\<rparr>)
      | M_Add \<Rightarrow>
          Some (continue (\<lambda>s. s\<lparr>mpc := M_LockBegin\<rparr>) (wg_Add (intervalHandler s) (int FetchesAmount) s))
      | M_LockBegin \<Rightarrow>
          (if mu s = None then Some (s\<lparr>mu := Some T_main, mpc := M_PrintBegin\<rparr>) else None)
      | M_PrintBegin \<Rightarrow> Some ((log_line T_main (cycle s) BeginMarker s)\<lparr>mpc := M_UnlockBegin\<rparr>)
      | M_UnlockBegin \<Rightarrow> Some (continue (\<lambda>s. s\<lparr>mpc := M_Start\<rparr>) (mu_Unlock s))
      | M_Start \<Rightarrow> Some (s\<lparr>start := clock s, mpc := M_Spawn 0\<rparr>)
      | M_Spawn i \<Rightarrow>
          (if i < FetchesAmount
           then Some (s\<lparr>workers := workers s @
                          [\<lparr>w_index = i, w_wg = intervalHandler s, w_cycle = cycle s, w_pc = W_Start\<rparr>],
                        mpc := M_Spawn (i + 1)\<rparr>)
           else Some (s\<lparr>mpc := M_GoMonitor\<rparr>))
      | M_GoMonitor \<Rightarrow>
          Some (s\<lparr>monitors := monitors s @ [\<lparr>m_handler = intervalHandler s, m_pc = Mon_Wait\<rparr>],
                  mpc := M_Select\<rparr>)
      | M_Select \<Rightarrow> Some (s\<lparr>mpc := M_Wait (clock s + FetchInterval * Second)\<rparr>)
      | M_Wait deadline \<Rightarrow> None
      | M_Since \<Rightarrow> Some (s\<lparr>mpc := M_Sleep (FetchInterval * Second - (clock s - start s))\<rparr>)
      | M_Sleep d \<Rightarrow>
          (if d \<le> 0 then Some (s\<lparr>mpc := M_LockEnd\<rparr>) else Some (s\<lparr>mpc := M_Sleeping (clock s + d)\<rparr>))
      | M_Sleeping wake \<Rightarrow> (if wake \<le> clock s then Some (s\<lparr>mpc := M_LockEnd\<rparr>) else None)
      | M_Timeout \<Rightarrow> Some ((log_line T_main (cycle s) TimeoutNotice s)\<lparr>mpc := M_LockEnd\<rparr>)
      | M_LockEnd \<Rightarrow>
          (if mu s = None then Some (s\<lparr>mu := Some T_main, mpc := M_PrintEnd\<rparr>) else None)
      | M_PrintEnd \<Rightarrow> Some ((log_line T_main (cycle s) EndMarker s)\<lparr>mpc := M_UnlockEnd\<rparr>)
      | M_UnlockEnd \<Rightarrow>
          Some (continue (\<lambda>s. s\<lparr>mpc := M_New, cycle := cycle s + 1\<rparr>) (mu_Unlock s)))"

text \<open>
  The \<^verbatim>\<open>select\<close> (lines 55 to 62): the first case is ready once the channel of
  the current handler is closed, the second once the timer created on entering
  the \<^verbatim>\<open>select\<close> has fired. \<open>resolved\<close> remembers the case taken.
\<close>

definition select_step :: "choice \<Rightarrow> state \<Rightarrow> state option" where
  "select_step c s =
     (case mpc s of
        M_Wait deadline \<Rightarrow>
          (case c of
             ViaDone \<Rightarrow>
               (if waitCh_closed (heap s ! intervalHandler s)
                then Some (s\<lparr>mpc := M_Since, resolved := Some ViaDone\<rparr>) else None)
           | ViaTimer \<Rightarrow>
               (if deadline \<le> clock s
                then Some (s\<lparr>mpc := M_Timeout, resolved := Some ViaTimer\<rparr>) else None))
      | _ \<Rightarrow> None)"

subsection \<open>The monitor goroutine, lines 47 to 53\<close>

definition monitor_step :: "nat \<Rightarrow> state \<Rightarrow> state option" where
  "monitor_step m s =
     (if m < length (monitors s) then
        (let h = m_handler (monitors s ! m) in
         case m_pc (monitors s ! m) of
           Mon_Wait \<Rightarrow> (if wg (heap s ! h) = 0 then Some (set_mpc m Mon_Close s) else None)
         | Mon_Close \<Rightarrow> Some (continue (set_mpc m Mon_Done) (close_waitCh h s))
         | Mon_Done \<Rightarrow> None)
      else None)"

subsection \<open>\<^verbatim>\<open>apiQueryWorker\<close>, lines 71 to 132\<close>

text \<open>
  \<^verbatim>\<open>defer wg.Done()\<close> is registered first and the closing of the body second, so
  on return the body is closed first and the counter released last. No deferred
  call runs after \<^verbatim>\<open>log.Fatalf\<close>.
\<close>

definition worker_step :: "stdlib \<Rightarrow> nat \<Rightarrow> state \<Rightarrow> state option" where
  "worker_step lib n s =
     (if n < length (workers s) then
        (let w = workers s ! n; t = T_worker n; c = w_cycle w in
         case w_pc w of
           W_Start \<Rightarrow>
             (case prepareHttpRequest lib of
                Inl err \<Rightarrow> Some (log_Fatalf t c (''Failed to prepare GET request: '' @ err) s)
              | Inr req \<Rightarrow> Some (set_wpc n (W_Sent (clock s)) s))
         | W_Sent startTime \<Rightarrow> None
         | W_Fetched info cl \<Rightarrow>
             (if mu s = None then Some (set_wpc n (W_Locked info cl) (s\<lparr>mu := Some t\<rparr>)) else None)
         | W_Locked info cl \<Rightarrow> Some (set_wpc n (W_Printed cl) (log_line t c (UnitReport info) s))
         | W_Printed cl \<Rightarrow> Some (continue (set_wpc n (W_Closing cl)) (mu_Unlock s))
         | W_Closing cl \<Rightarrow>
             (case cl of
                Some err \<Rightarrow> Some (log_Fatalf t c (''Failed to close response body: '' @ err) s)
              | None \<Rightarrow> Some (set_wpc n W_Releasing s))
         | W_Releasing \<Rightarrow> Some (continue (set_wpc n W_Finished) (wg_Done (w_wg w) s))
         | W_Finished \<Rightarrow> None)
      else None)"

definition recv_step :: "stdlib \<Rightarrow> nat \<Rightarrow> string + Response \<Rightarrow> state \<Rightarrow> state option" where
  "recv_step lib n r s =
     (if n < length (workers s) then
        (let w = workers s ! n; t = T_worker n; c = w_cycle w in
         case w_pc w of
           W_Sent startTime \<Rightarrow>
             (case r of
                Inl err \<Rightarrow> Some (log_Fatalf t c (''Failed to perform GET request: '' @ err) s)
              | Inr resp \<Rightarrow>
                  (case apiQueryWorker_decode lib (w_index w) (clock s - startTime) resp of
                     Fatalf msg \<Rightarrow> Some (log_Fatalf t c msg s)
                   | Fetched info \<Rightarrow> Some (set_wpc n (W_Fetched info (BodyClose resp)) s)))
         | _ \<Rightarrow> None)
      else None)"

subsection \<open>Steps and runs of the process\<close>

definition step :: "stdlib \<Rightarrow> state \<Rightarrow> action \<Rightarrow> state option" where
  "step lib s a =
     (if status s \<noteq> Running then None
      else case a of
             Tick d \<Rightarrow> Some (s\<lparr>clock := clock s + int d\<rparr>)
           | Main \<Rightarrow> main_step s
           | Select c \<Rightarrow> select_step c s
           | Worker n \<Rightarrow> worker_step lib n s
           | Recv n r \<Rightarrow> recv_step lib n r s
           | Monitor m \<Rightarrow> monitor_step m s)"

fun run :: "stdlib \<Rightarrow> action list \<Rightarrow> state \<Rightarrow> state option" where
  "run lib [] s = Some s"
| "run lib (a # as) s = (case step lib s a of None \<Rightarrow> None | Some s' \<Rightarrow> run lib as s')"


section \<open>Invariants of the reachable states\<close>

text \<open>
  The program points between \<^verbatim>\<open>mu.Lock()\<close> and \<^verbatim>\<open>mu.Unlock()\<close>, in a unit and in
  \<^verbatim>\<open>main\<close>: whoever is there is the holder of the mutex.
\<close>

fun holds_lock :: "wpc \<Rightarrow> bool" where
  "holds_lock (W_Locked info cl) = True"
| "holds_lock (W_Printed cl) = True"
| "holds_lock pc = False"

fun main_holds :: "mpc \<Rightarrow> bool" where
  "main_holds M_PrintBegin = True"
| "main_holds M_UnlockBegin = True"
| "main_holds M_PrintEnd = True"
| "main_holds M_UnlockEnd = True"
| "main_holds pc = False"

definition mu_inv :: "state \<Rightarrow> bool" where
  "mu_inv s \<longleftrightarrow>
     (main_holds (mpc s) \<longrightarrow> mu s = Some T_main) \<and>
     (\<forall>n < length (workers s). holds_lock (w_pc (workers s ! n)) \<longrightarrow> mu s = Some (T_worker n))"

text \<open>Conversely, the mutex is held only by a goroutine at such a program point.\<close>

definition owner_inv :: "state \<Rightarrow> bool" where
  "owner_inv s \<longleftrightarrow>
     (mu s = Some T_main \<longrightarrow> main_holds (mpc s)) \<and>
     (\<forall>n. mu s = Some (T_worker n) \<longrightarrow>
        n < length (workers s) \<and> holds_lock (w_pc (workers s ! n))) \<and>
     (\<forall>m. mu s \<noteq> Some (T_monitor m))"

text \<open>
  What \<^verbatim>\<open>main\<close> has done in the current iteration, read off its program point: how
  many units it has launched, whether \<^verbatim>\<open>wg.Add\<close> has run, whether the monitor has
  been started. \<open>launched s h\<close> and \<open>added s h\<close> say the same of the handler at
  address \<open>h\<close>, which belongs to iteration \<open>h\<close>.
\<close>

fun spawned_now :: "mpc \<Rightarrow> nat" where
  "spawned_now M_New = 0"
| "spawned_now M_Add = 0"
| "spawned_now M_LockBegin = 0"
| "spawned_now M_PrintBegin = 0"
| "spawned_now M_UnlockBegin = 0"
| "spawned_now M_Start = 0"
| "spawned_now (M_Spawn i) = i"
| "spawned_now pc = FetchesAmount"

fun added_now :: "mpc \<Rightarrow> bool" where
  "added_now M_New = False"
| "added_now M_Add = False"
| "added_now pc = True"

fun monitored_now :: "mpc \<Rightarrow> bool" where
  "monitored_now M_Select = True"
| "monitored_now (M_Wait dl) = True"
| "monitored_now M_Since = True"
| "monitored_now (M_Sleep d) = True"
| "monitored_now (M_Sleeping t) = True"
| "monitored_now M_Timeout = True"
| "monitored_now M_LockEnd = True"
| "monitored_now M_PrintEnd = True"
| "monitored_now M_UnlockEnd = True"
| "monitored_now pc = False"

definition launched :: "state \<Rightarrow> nat \<Rightarrow> nat" where
  "launched s h = (if h < cycle s then FetchesAmount else if h = cycle s then spawned_now (mpc s) else 0)"

definition added :: "state \<Rightarrow> nat \<Rightarrow> bool" where
  "added s h \<longleftrightarrow> h < cycle s \<or> (h = cycle s \<and> added_now (mpc s))"

text \<open>
  The units that were given the wait group of handler \<open>h\<close>, in the order of their
  creation, and the number of them that have returned.
\<close>

definition on_handler :: "nat \<Rightarrow> worker list \<Rightarrow> worker list" where
  "on_handler h ws = filter (\<lambda>w. w_wg w = h) ws"

definition finished :: "nat \<Rightarrow> worker list \<Rightarrow> nat" where
  "finished h ws = length (filter (\<lambda>w. w_wg w = h \<and> w_pc w = W_Finished) ws)"

text \<open>
  One handler per iteration, the current one the newest; every unit holds the
  handler of the iteration that launched it.
\<close>

definition heap_inv :: "state \<Rightarrow> bool" where
  "heap_inv s \<longleftrightarrow>
     length (heap s) = (if mpc s = M_New then cycle s else cycle s + 1) \<and>
     (mpc s \<noteq> M_New \<longrightarrow> intervalHandler s = cycle s) \<and>
     (\<forall>w \<in> set (workers s). w_wg w = w_cycle w \<and> w_wg w < length (heap s)) \<and>
     spawned_now (mpc s) \<le> FetchesAmount"

text \<open>The units on a handler carry the indices 0, 1, ... in order.\<close>

definition units_inv :: "state \<Rightarrow> bool" where
  "units_inv s \<longleftrightarrow> (\<forall>h. map w_index (on_handler h (workers s)) = [0..<launched s h])"

text \<open>The countdown of a handler is the batch size minus the units that have returned.\<close>

definition wg_inv :: "state \<Rightarrow> bool" where
  "wg_inv s \<longleftrightarrow>
     (\<forall>h < length (heap s).
        wg (heap s ! h) + int (finished h (workers s)) = (if added s h then int FetchesAmount else 0))"

text \<open>
  Monitor number \<open>m\<close> watches handler \<open>m\<close>; the channel of a handler is closed
  exactly when its monitor is through, and the monitor passes \<^verbatim>\<open>wg.Wait()\<close> only
  with the countdown at zero, where it stays.
\<close>

definition mon_inv :: "state \<Rightarrow> bool" where
  "mon_inv s \<longleftrightarrow>
     length (monitors s) = (if monitored_now (mpc s) then cycle s + 1 else cycle s) \<and>
     (\<forall>m < length (monitors s).
        m_handler (monitors s ! m) = m \<and>
        (waitCh_closed (heap s ! m) \<longleftrightarrow> m_pc (monitors s ! m) = Mon_Done) \<and>
        (m_pc (monitors s ! m) \<noteq> Mon_Wait \<longrightarrow> wg (heap s ! m) = 0)) \<and>
     (\<forall>h < length (heap s). length (monitors s) \<le> h \<longrightarrow> \<not> waitCh_closed (heap s ! h))"

definition inv :: "state \<Rightarrow> bool" where
  "inv s \<longleftrightarrow> mu_inv s \<and> heap_inv s \<and> units_inv s \<and> wg_inv s \<and> mon_inv s \<and> status s \<noteq> Panicked"

text \<open>
  The output: before every unit report there is the begin marker of the iteration
  that launched the reporting unit, printed by \<^verbatim>\<open>main\<close> under the mutex.
\<close>

fun is_report :: "event \<Rightarrow> bool" where
  "is_report (UnitReport info) = True"
| "is_report e = False"

definition has_begin :: "nat \<Rightarrow> entry list \<Rightarrow> bool" where
  "has_begin c es \<longleftrightarrow>
     (\<exists>e \<in> set es. ev e = BeginMarker \<and> of_cycle e = c \<and> caller e = T_main \<and>
        lock_holder e = Some T_main)"

fun spawning :: "mpc \<Rightarrow> bool" where
  "spawning M_UnlockBegin = True"
| "spawning M_Start = True"
| "spawning (M_Spawn i) = True"
| "spawning pc = False"

definition begin_inv :: "state \<Rightarrow> bool" where
  "begin_inv s \<longleftrightarrow>
     (\<forall>j < length (out s). is_report (ev (out s ! j)) \<longrightarrow>
        has_begin (of_cycle (out s ! j)) (take j (out s)) \<and>
        lock_holder (out s ! j) = Some (caller (out s ! j)) \<and>
        (\<exists>n < length (workers s). caller (out s ! j) = T_worker n \<and>
           w_cycle (workers s ! n) = of_cycle (out s ! j))) \<and>
     (\<forall>n < length (workers s). has_begin (w_cycle (workers s ! n)) (out s)) \<and>
     (spawning (mpc s) \<longrightarrow> has_begin (cycle s) (out s))"

text \<open>
  \<^verbatim>\<open>json.Unmarshal\<close> checks the syntax of its input before it decodes, with the
  check that \<^verbatim>\<open>json.Valid\<close> makes: content that is not valid is rejected. This is
  a property of \<^verbatim>\<open>encoding/json\<close>, stated here for the parameter of the model.
\<close>

definition decoder_checks_syntax :: "stdlib \<Rightarrow> bool" where
  "decoder_checks_syntax lib \<longleftrightarrow> (\<forall>content. \<not> json_Valid lib content \<longrightarrow> isl (json_Unmarshal lib content))"

fun pc_valid :: "wpc \<Rightarrow> bool" where
  "pc_valid (W_Fetched info cl) = isJsonValid info"
| "pc_valid (W_Locked info cl) = isJsonValid info"
| "pc_valid pc = True"

fun ev_valid :: "event \<Rightarrow> bool" where
  "ev_valid (UnitReport info) = isJsonValid info"
| "ev_valid e = True"

definition valid_inv :: "state \<Rightarrow> bool" where
  "valid_inv s \<longleftrightarrow>
     (\<forall>n < length (workers s). pc_valid (w_pc (workers s ! n))) \<and>
     (\<forall>j < length (out s). ev_valid (ev (out s ! j)))"

text \<open>
  Time: the program points of \<^verbatim>\<open>main\<close> from the end of the \<^verbatim>\<open>select\<close> statement
  to the assignment of \<^verbatim>\<open>start\<close> in the next iteration, where the cadence has
  passed since \<^verbatim>\<open>start\<close> was last assigned.
\<close>

fun after_sleep :: "mpc \<Rightarrow> bool" where
  "after_sleep M_LockEnd = True"
| "after_sleep M_PrintEnd = True"
| "after_sleep M_UnlockEnd = True"
| "after_sleep M_New = True"
| "after_sleep M_Add = True"
| "after_sleep M_LockBegin = True"
| "after_sleep M_PrintBegin = True"
| "after_sleep M_UnlockBegin = True"
| "after_sleep M_Start = True"
| "after_sleep pc = False"

definition time_inv :: "state \<Rightarrow> bool" where
  "time_inv s \<longleftrightarrow>
     start s \<le> clock s \<and>
     (\<forall>d. mpc s = M_Sleep d \<longrightarrow> start s + FetchInterval * Second \<le> clock s + d) \<and>
     (\<forall>t. mpc s = M_Sleeping t \<longrightarrow> start s + FetchInterval * Second \<le> t) \<and>
     (\<forall>dl. mpc s = M_Wait dl \<longrightarrow> start s + FetchInterval * Second \<le> dl) \<and>
     (mpc s = M_Timeout \<longrightarrow> start s + FetchInterval * Second \<le> clock s) \<and>
     (after_sleep (mpc s) \<and> resolved s \<noteq> None \<longrightarrow>
        start s + FetchInterval * Second \<le> clock s)"


section \<open>Test data\<close>

text \<open>
  The summary of the end-to-end scenario: three records with mid rates 4.6, 4.4
  and 4.8, as \<^verbatim>\<open>float64\<close> values.
\<close>

definition example_summary :: ExchangeRatesSummary where
  "example_summary = \<lparr>Rates =
     [\<lparr>Mid = float64 4.6, EffectiveDate = \<lparr>Year = 2024, Month = 3, Day = 4\<rparr>\<rparr>,
      \<lparr>Mid = float64 4.4, EffectiveDate = \<lparr>Year = 2024, Month = 3, Day = 5\<rparr>\<rparr>,
      \<lparr>Mid = float64 4.8, EffectiveDate = \<lparr>Year = 2024, Month = 3, Day = 6\<rparr>\<rparr>]\<rparr>"

text \<open>
  Stand-ins for the library, for concrete runs: every request can be built, a body
  with a gzip header unpacks to what follows its first ten bytes, and the only
  JSON text known is the empty object, with any number of blanks.
\<close>

definition test_lib :: stdlib where
  "test_lib = \<lparr>http_NewRequest = (\<lambda>m u. Inr \<lparr>Method = m, URL = u, req_Header = Map.empty\<rparr>),
     gzip_header_rest = (\<lambda>bs. None),
     gzip_ReadAll = (\<lambda>bs. Inr (drop 10 bs)),
     json_Valid = (\<lambda>c. filter (\<lambda>x. x \<noteq> CHR '' '') c = ''{}''),
     json_Unmarshal = (\<lambda>c. if filter (\<lambda>x. x \<noteq> CHR '' '') c = ''{}'' then Inr \<lparr>Rates = []\<rparr>
        else Inl ''unexpected end of JSON input'')\<rparr>"

definition test_body :: string where
  "test_body = [CHR 0x1F, CHR 0x8B, CHR 0x08, CHR 0x00, CHR 0x00, CHR 0x00, CHR 0x00, CHR 0x00,
     CHR 0x00, CHR 0x03] @ ''{}''"

definition test_resp :: Response where
  "test_resp = \<lparr>StatusCode = 200, resp_Header = [''Content-Type'' \<mapsto> ''application/json''],
     Body = Inr test_body, BodyClose = None\<rparr>"

text \<open>
  Schedules. \<open>launch\<close>: \<^verbatim>\<open>main\<close> runs from the top of the loop into the
  \<^verbatim>\<open>select\<close>, having launched ten units and the monitor. \<open>unit_ok n\<close>: unit \<open>n\<close>
  runs from its start to its return, with a good response.
\<close>

definition launch :: "action list" where
  "launch = [Main, Main, Main, Main, Main, Main, Main, Main, Main, Main, Main, Main, Main, Main,
     Main, Main, Main, Main, Main]"

definition unit_ok :: "nat \<Rightarrow> action list" where
  "unit_ok n = [Worker n, Recv n (Inr test_resp), Worker n, Worker n, Worker n, Worker n, Worker n]"

text \<open>
  All units return, the monitor closes the channel, \<^verbatim>\<open>main\<close> sleeps out the
  cadence, prints the end marker and runs the next iteration up to the assignment
  of \<^verbatim>\<open>start\<close>.
\<close>

definition sched_done :: "action list" where
  "sched_done = launch @ unit_ok 0 @ unit_ok 1 @ unit_ok 2 @ unit_ok 3 @ unit_ok 4 @ unit_ok 5 @
     unit_ok 6 @ unit_ok 7 @ unit_ok 8 @ unit_ok 9 @
     [Monitor 0, Monitor 0, Select ViaDone, Main, Main, Tick 5000000000, Main, Main, Main, Main,
      Main, Main, Main, Main, Main]"

text \<open>A response whose body is uncompressed JSON, with no \<^verbatim>\<open>Content-Encoding\<close>.\<close>

definition plain_resp :: Response where
  "plain_resp = \<lparr>StatusCode = 200, resp_Header = [''Content-Type'' \<mapsto> ''application/json''],
     Body = Inr ''{          }'', BodyClose = None\<rparr>"

text \<open>
  Unit 0 prints its report; all units have returned; five seconds pass with no unit
  through; the timer fires while unit 0 holds the mutex; \<^verbatim>\<open>client.Do\<close> of unit 0
  fails.
\<close>

definition sched_report :: "action list" where
  "sched_report = launch @ [Worker 0, Recv 0 (Inr test_resp), Worker 0, Worker 0]"

definition sched_released :: "action list" where
  "sched_released = launch @ unit_ok 0 @ unit_ok 1 @ unit_ok 2 @ unit_ok 3 @ unit_ok 4 @ unit_ok 5 @
     unit_ok 6 @ unit_ok 7 @ unit_ok 8 @ unit_ok 9"

definition sched_late :: "action list" where
  "sched_late = launch @ [Tick 5000000000]"

definition sched_timeout_locked :: "action list" where
  "sched_timeout_locked = launch @
     [Worker 0, Recv 0 (Inr test_resp), Worker 0, Tick 5000000000, Select ViaTimer, Main]"

text \<open>The timer has fired while unit 0 holds the mutex; \<^verbatim>\<open>main\<close> is still in the \<^verbatim>\<open>select\<close>.\<close>

definition sched_wait_locked :: "action list" where
  "sched_wait_locked = launch @ [Worker 0, Recv 0 (Inr test_resp), Worker 0, Tick 5000000000]"

definition sched_transport_error :: "action list" where
  "sched_transport_error = launch @ [Worker 0, Recv 0 (Inl ''connection refused'')]"


section \<open>The domain filter and the date format\<close>

lemma rangeRates_acc:
  "rangeRates rates acc = acc @ map (\<lambda>item. date_string (EffectiveDate item)) (filter flagged rates)"
  by (induction rates arbitrary: acc) (simp_all add: flagged_def date_string_def Sprintf_date_def)

lemma rateOutOfScope_of_filter:
  "rateOutOfScope_of summary = map (\<lambda>item. date_string (EffectiveDate item)) (filter flagged (Rates summary))"
  by (simp add: rateOutOfScope_of_def rangeRates_acc)

lemma float64_4_5: "float64 4.5 = lit_4_5"
  by (simp add: float64_def lit_4_5_def round_def)

lemma float64_4_7: "float64 4.7 = lit_4_7"
  by (simp add: float64_def lit_4_7_def round_def)

lemma float64_4_499: "float64 4.499 = 5065423680884965 / 2 ^ 50"
  by (simp add: float64_def round_def)

lemma float64_4_701: "float64 4.701 = 5292855462067175 / 2 ^ 50"
  by (simp add: float64_def round_def)

lemma flagged_4_5: "\<not> flagged \<lparr>Mid = float64 4.5, EffectiveDate = d\<rparr>"
  unfolding float64_4_5 by (simp add: flagged_def lit_4_5_def lit_4_7_def)

lemma flagged_4_7: "\<not> flagged \<lparr>Mid = float64 4.7, EffectiveDate = d\<rparr>"
  unfolding float64_4_7 by (simp add: flagged_def lit_4_5_def lit_4_7_def)

lemma flagged_4_499: "flagged \<lparr>Mid = float64 4.499, EffectiveDate = d\<rparr>"
  unfolding float64_4_499 by (simp add: flagged_def lit_4_5_def lit_4_7_def)

lemma flagged_4_701: "flagged \<lparr>Mid = float64 4.701, EffectiveDate = d\<rparr>"
  unfolding float64_4_701 by (simp add: flagged_def lit_4_5_def lit_4_7_def)

lemma digit_val_digit_char: "d < 10 \<Longrightarrow> digit_val (digit_char d) = d"
proof -
  assume "d < 10"
  then have "d \<in> {0, 1, 2, 3, 4, 5, 6, 7, 8, 9}" by auto
  then show ?thesis
    by (auto simp: digit_val_def digit_char_def)
qed

lemma digit_char_zero: "d < 10 \<Longrightarrow> digit_char d = CHR ''0'' \<longleftrightarrow> d = 0"
proof -
  assume "d < 10"
  then have "d \<in> {0, 1, 2, 3, 4, 5, 6, 7, 8, 9}" by auto
  then show ?thesis
    by (auto simp: digit_char_def)
qed

lemma digit_char_in: "d < 10 \<Longrightarrow> digit_char d \<in> set ''0123456789''"
proof -
  assume "d < 10"
  then have "d \<in> {0, 1, 2, 3, 4, 5, 6, 7, 8, 9}" by auto
  then show ?thesis
    by (auto simp: digit_char_def)
qed

lemma decimal_val_snoc: "decimal_val (cs @ [c]) = 10 * decimal_val cs + digit_val c"
  by (simp add: decimal_val_def)

lemma digits10_nonempty: "digits10 n \<noteq> []"
  by (subst digits10.simps) simp

lemma decimal_val_digits10: "decimal_val (digits10 n) = n"
proof (induction n rule: digits10.induct)
  case (1 n)
  show ?case
  proof (cases "n < 10")
    case True
    then show ?thesis
      by (subst digits10.simps) (simp add: decimal_val_def digit_val_digit_char)
  next
    case False
    with 1 have "decimal_val (digits10 (n div 10)) = n div 10" by simp
    with False show ?thesis
      by (subst digits10.simps) (simp add: decimal_val_snoc digit_val_digit_char)
  qed
qed

lemma hd_digits10: "0 < n \<Longrightarrow> hd (digits10 n) \<noteq> CHR ''0''"
proof (induction n rule: digits10.induct)
  case (1 n)
  show ?case
  proof (cases "n < 10")
    case True
    with 1(2) show ?thesis
      by (subst digits10.simps) (simp add: digit_char_zero)
  next
    case False
    then have "0 < n div 10" by simp
    with 1 False have "hd (digits10 (n div 10)) \<noteq> CHR ''0''" by simp
    with False show ?thesis
      by (subst digits10.simps) (simp add: digits10_nonempty)
  qed
qed

lemma set_digits10: "set (digits10 n) \<subseteq> set ''0123456789''"
proof (induction n rule: digits10.induct)
  case (1 n)
  show ?case
  proof (cases "n < 10")
    case True
    then show ?thesis
      using digit_char_in [of n] by (subst digits10.simps) simp
  next
    case False
    with 1 have "set (digits10 (n div 10)) \<subseteq> set ''0123456789''" by simp
    with False show ?thesis
      using digit_char_in [of "n mod 10"] by (subst digits10.simps) simp
  qed
qed

lemma length_digits10_small: "n < 10 \<Longrightarrow> digits10 n = [digit_char n]"
  by (subst digits10.simps) simp


text \<open>
  Claim C2. The loop of \<^verbatim>\<open>apiQueryWorker\<close> records a date for exactly those rate
  records, in order, whose mid value is strictly less than 4.5 or strictly greater
  than 4.7 (the \<^verbatim>\<open>float64\<close> constants); a mid value of exactly 4.5 or exactly 4.7
  is not flagged, while 4.499 and 4.701 are flagged.
\<close>

theorem C2_domain_filter:
  "rateOutOfScope_of summary =
     map (\<lambda>item. date_string (EffectiveDate item))
       (filter (\<lambda>item. Mid item < float64 4.5 \<or> Mid item > float64 4.7) (Rates summary))
   \<and> flagged = (\<lambda>item. Mid item < float64 4.5 \<or> Mid item > float64 4.7)
   \<and> \<not> flagged \<lparr>Mid = float64 4.5, EffectiveDate = d\<rparr>
   \<and> \<not> flagged \<lparr>Mid = float64 4.7, EffectiveDate = d\<rparr>
   \<and> flagged \<lparr>Mid = float64 4.499, EffectiveDate = d\<rparr>
   \<and> flagged \<lparr>Mid = float64 4.701, EffectiveDate = d\<rparr>"
proof -
  have eq: "flagged = (\<lambda>item. Mid item < float64 4.5 \<or> Mid item > float64 4.7)"
    unfolding float64_4_5 float64_4_7 by (rule ext) (simp add: flagged_def)
  have "rateOutOfScope_of summary =
     map (\<lambda>item. date_string (EffectiveDate item)) (filter flagged (Rates summary))"
    by (rule rateOutOfScope_of_filter)
  then show ?thesis
    using flagged_4_5 flagged_4_7 flagged_4_499 flagged_4_701 eq by simp
qed


theorem C2_domain_filter_witness:
  "rateOutOfScope_of example_summary = [''5/3/2024'', ''6/3/2024'']"
  using C2_domain_filter [of example_summary]
  by (simp add: example_summary_def float64_def round_def date_string_def fmt_d_def
      digits10.simps digit_char_def)

text \<open>
  Claim C7. For every out-of-scope rate record its effective date is recorded as
  day/month/year, each number in decimal numerals without zero-padding (a positive
  number is written with digits only, the first of them not 0, and a number below
  ten with a single digit); the date 2024-03-05 is written \<^verbatim>\<open>5/3/2024\<close>.
\<close>

theorem C7_date_format:
  "(\<forall>item \<in> set (Rates summary). flagged item \<longrightarrow>
      Sprintf_date (Day (EffectiveDate item)) (Month (EffectiveDate item)) (Year (EffectiveDate item))
        \<in> set (rateOutOfScope_of summary))
   \<and> (\<forall>s \<in> set (rateOutOfScope_of summary). \<exists>item \<in> set (Rates summary). flagged item \<and>
        s = fmt_d (Day (EffectiveDate item)) @ ''/'' @ fmt_d (Month (EffectiveDate item)) @ ''/'' @
            fmt_d (Year (EffectiveDate item)))
   \<and> (0 < n \<longrightarrow> hd (fmt_d n) \<noteq> CHR ''0'' \<and> set (fmt_d n) \<subseteq> set ''0123456789''
        \<and> int (decimal_val (fmt_d n)) = n)
   \<and> (0 < n \<and> n < 10 \<longrightarrow> length (fmt_d n) = 1)
   \<and> Sprintf_date 5 3 2024 = ''5/3/2024''"
proof -
  have a: "\<forall>item \<in> set (Rates summary). flagged item \<longrightarrow>
      Sprintf_date (Day (EffectiveDate item)) (Month (EffectiveDate item)) (Year (EffectiveDate item))
        \<in> set (rateOutOfScope_of summary)"
    by (auto simp: rateOutOfScope_of_filter date_string_def Sprintf_date_def)
  have b: "\<forall>s \<in> set (rateOutOfScope_of summary). \<exists>item \<in> set (Rates summary). flagged item \<and>
        s = fmt_d (Day (EffectiveDate item)) @ ''/'' @ fmt_d (Month (EffectiveDate item)) @ ''/'' @
            fmt_d (Year (EffectiveDate item))"
    by (auto simp: rateOutOfScope_of_filter date_string_def)
  have c: "0 < n \<longrightarrow> hd (fmt_d n) \<noteq> CHR ''0'' \<and> set (fmt_d n) \<subseteq> set ''0123456789''
        \<and> int (decimal_val (fmt_d n)) = n"
    using hd_digits10 [of "nat n"] set_digits10 [of "nat n"] decimal_val_digits10 [of "nat n"]
    by (simp add: fmt_d_def)
  have d: "0 < n \<and> n < 10 \<longrightarrow> length (fmt_d n) = 1"
    using length_digits10_small [of "nat n"] by (auto simp: fmt_d_def)
  have e: "Sprintf_date 5 3 2024 = ''5/3/2024''"
    by (simp add: Sprintf_date_def fmt_d_def digits10.simps digit_char_def)
  from a b c d e show ?thesis by blast
qed


theorem C7_date_format_witness:
  "\<lparr>Mid = float64 4.4, EffectiveDate = \<lparr>Year = 2024, Month = 3, Day = 5\<rparr>\<rparr> \<in> set (Rates example_summary)
   \<and> flagged \<lparr>Mid = float64 4.4, EffectiveDate = \<lparr>Year = 2024, Month = 3, Day = 5\<rparr>\<rparr>
   \<and> ''5/3/2024'' \<in> set (rateOutOfScope_of example_summary)
   \<and> (0::int) < 5 \<and> (5::int) < 10 \<and> fmt_d 5 = ''5'' \<and> length (fmt_d 5) = 1"
  using C7_date_format [of example_summary 5]
  by (simp add: example_summary_def float64_def round_def flagged_def lit_4_5_def lit_4_7_def
      Sprintf_date_def fmt_d_def digits10.simps digit_char_def)


section \<open>Steps, case by case\<close>

lemma main_step_cases [consumes 2, case_names new add lock_begin print_begin unlock_begin start spawn
    spawn_exit go_monitor select since sleep_zero sleep_pos wake timeout lock_end print_end unlock_end panic]:
  assumes "main_step s = Some s'" and run: "status s = Running"
  obtains
    (new) "mpc s = M_New"
      "s' = s\<lparr>heap := heap s @ [\<lparr>wg = 0, waitCh_closed = False\<rparr>],
              intervalHandler := length (heap s), mpc := M_Add\<rparr>"
  | (add) "mpc s = M_Add" "0 \<le> wg (heap s ! intervalHandler s) + 10"
      "s' = s\<lparr>heap := (heap s)[intervalHandler s :=
                (heap s ! intervalHandler s)\<lparr>wg := wg (heap s ! intervalHandler s) + 10\<rparr>],
              mpc := M_LockBegin\<rparr>"
  | (lock_begin) "mpc s = M_LockBegin" "mu s = None" "s' = s\<lparr>mu := Some T_main, mpc := M_PrintBegin\<rparr>"
  | (print_begin) "mpc s = M_PrintBegin"
      "s' = s\<lparr>out := out s @ [\<lparr>ev = BeginMarker, caller = T_main, lock_holder = mu s, of_cycle = cycle s\<rparr>],
              mpc := M_UnlockBegin\<rparr>"
  | (unlock_begin) "mpc s = M_UnlockBegin" "mu s \<noteq> None" "s' = s\<lparr>mu := None, mpc := M_Start\<rparr>"
  | (start) "mpc s = M_Start" "s' = s\<lparr>start := clock s, mpc := M_Spawn 0\<rparr>"
  | (spawn) i where "mpc s = M_Spawn i" "i < 10"
      "s' = s\<lparr>workers := workers s @
                [\<lparr>w_index = i, w_wg = intervalHandler s, w_cycle = cycle s, w_pc = W_Start\<rparr>],
              mpc := M_Spawn (i + 1)\<rparr>"
  | (spawn_exit) i where "mpc s = M_Spawn i" "\<not> i < 10" "s' = s\<lparr>mpc := M_GoMonitor\<rparr>"
  | (go_monitor) "mpc s = M_GoMonitor"
      "s' = s\<lparr>monitors := monitors s @ [\<lparr>m_handler = intervalHandler s, m_pc = Mon_Wait\<rparr>],
              mpc := M_Select\<rparr>"
  | (select) "mpc s = M_Select" "s' = s\<lparr>mpc := M_Wait (clock s + 5000000000)\<rparr>"
  | (since) "mpc s = M_Since" "s' = s\<lparr>mpc := M_Sleep (5000000000 - (clock s - start s))\<rparr>"
  | (sleep_zero) d where "mpc s = M_Sleep d" "d \<le> 0" "s' = s\<lparr>mpc := M_LockEnd\<rparr>"
  | (sleep_pos) d where "mpc s = M_Sleep d" "0 < d" "s' = s\<lparr>mpc := M_Sleeping (clock s + d)\<rparr>"
  | (wake) t where "mpc s = M_Sleeping t" "t \<le> clock s" "s' = s\<lparr>mpc := M_LockEnd\<rparr>"
  | (timeout) "mpc s = M_Timeout"
      "s' = s\<lparr>out := out s @ [\<lparr>ev = TimeoutNotice, caller = T_main, lock_holder = mu s, of_cycle = cycle s\<rparr>],
              mpc := M_LockEnd\<rparr>"
  | (lock_end) "mpc s = M_LockEnd" "mu s = None" "s' = s\<lparr>mu := Some T_main, mpc := M_PrintEnd\<rparr>"
  | (print_end) "mpc s = M_PrintEnd"
      "s' = s\<lparr>out := out s @ [\<lparr>ev = EndMarker, caller = T_main, lock_holder = mu s, of_cycle = cycle s\<rparr>],
              mpc := M_UnlockEnd\<rparr>"
  | (unlock_end) "mpc s = M_UnlockEnd" "mu s \<noteq> None"
      "s' = s\<lparr>mu := None, mpc := M_New, cycle := cycle s + 1\<rparr>"
  | (panic) "s' = s\<lparr>status := Panicked\<rparr>"
      "(mpc s = M_Add \<and> wg (heap s ! intervalHandler s) + 10 < 0) \<or>
       ((mpc s = M_UnlockBegin \<or> mpc s = M_UnlockEnd) \<and> mu s = None)"
proof (cases "mpc s")
  case M_New
  with assms show ?thesis by (intro new) (simp_all add: main_step_def)
next
  case M_Add
  show ?thesis
  proof (cases "0 \<le> wg (heap s ! intervalHandler s) + 10")
    case True
    with M_Add assms show ?thesis
      by (intro add) (simp_all add: main_step_def continue_def wg_Add_def FetchesAmount_def)
  next
    case False
    with M_Add assms show ?thesis
      by (intro panic) (simp_all add: main_step_def continue_def wg_Add_def FetchesAmount_def)
  qed
next
  case M_LockBegin
  with assms show ?thesis by (intro lock_begin) (simp_all add: main_step_def split: if_splits)
next
  case M_PrintBegin
  with assms show ?thesis by (intro print_begin) (simp_all add: main_step_def log_line_def)
next
  case M_UnlockBegin
  show ?thesis
  proof (cases "mu s = None")
    case True
    with M_UnlockBegin assms show ?thesis
      by (intro panic) (simp_all add: main_step_def continue_def mu_Unlock_def)
  next
    case False
    with M_UnlockBegin assms show ?thesis
      by (intro unlock_begin) (auto simp: main_step_def continue_def mu_Unlock_def)
  qed
next
  case M_Start
  with assms show ?thesis by (intro start) (simp_all add: main_step_def)
next
  case (M_Spawn i)
  show ?thesis
  proof (cases "i < 10")
    case True
    with M_Spawn assms show ?thesis
      by (intro spawn [of i]) (simp_all add: main_step_def FetchesAmount_def)
  next
    case False
    with M_Spawn assms show ?thesis
      by (intro spawn_exit [of i]) (simp_all add: main_step_def FetchesAmount_def)
  qed
next
  case M_GoMonitor
  with assms show ?thesis by (intro go_monitor) (simp_all add: main_step_def)
next
  case M_Select
  with assms show ?thesis
    by (intro select) (simp_all add: main_step_def FetchInterval_def Second_def)
next
  case (M_Wait dl)
  with assms show ?thesis by (simp add: main_step_def)
next
  case M_Since
  with assms show ?thesis
    by (intro since) (simp_all add: main_step_def FetchInterval_def Second_def)
next
  case (M_Sleep d)
  show ?thesis
  proof (cases "d \<le> 0")
    case True
    with M_Sleep assms show ?thesis by (intro sleep_zero [of d]) (simp_all add: main_step_def)
  next
    case False
    with M_Sleep assms show ?thesis by (intro sleep_pos [of d]) (simp_all add: main_step_def)
  qed
next
  case (M_Sleeping t)
  with assms show ?thesis by (intro wake [of t]) (simp_all add: main_step_def split: if_splits)
next
  case M_Timeout
  with assms show ?thesis by (intro timeout) (simp_all add: main_step_def log_line_def)
next
  case M_LockEnd
  with assms show ?thesis by (intro lock_end) (simp_all add: main_step_def split: if_splits)
next
  case M_PrintEnd
  with assms show ?thesis by (intro print_end) (simp_all add: main_step_def log_line_def)
next
  case M_UnlockEnd
  show ?thesis
  proof (cases "mu s = None")
    case True
    with M_UnlockEnd assms show ?thesis
      by (intro panic) (simp_all add: main_step_def continue_def mu_Unlock_def)
  next
    case False
    with M_UnlockEnd assms show ?thesis
      by (intro unlock_end) (auto simp: main_step_def continue_def mu_Unlock_def)
  qed
qed

lemma select_step_cases [consumes 1, case_names via_done via_timer]:
  assumes "select_step c s = Some s'"
  obtains
    (via_done) dl where "c = ViaDone" "mpc s = M_Wait dl" "waitCh_closed (heap s ! intervalHandler s)"
      "s' = s\<lparr>mpc := M_Since, resolved := Some ViaDone\<rparr>"
  | (via_timer) dl where "c = ViaTimer" "mpc s = M_Wait dl" "dl \<le> clock s"
      "s' = s\<lparr>mpc := M_Timeout, resolved := Some ViaTimer\<rparr>"
proof (cases "mpc s")
  case (M_Wait dl)
  show ?thesis
  proof (cases c)
    case ViaDone
    with M_Wait assms show ?thesis
      by (intro via_done [of dl]) (simp_all add: select_step_def split: if_splits)
  next
    case ViaTimer
    with M_Wait assms show ?thesis
      by (intro via_timer [of dl]) (simp_all add: select_step_def split: if_splits)
  qed
qed (use assms in \<open>simp_all add: select_step_def\<close>)

lemma monitor_step_cases [consumes 2, case_names wake close panic]:
  assumes "monitor_step m s = Some s'" and run: "status s = Running"
  obtains
    (wake) "m < length (monitors s)" "m_pc (monitors s ! m) = Mon_Wait"
      "wg (heap s ! m_handler (monitors s ! m)) = 0"
      "s' = s\<lparr>monitors := (monitors s)[m := (monitors s ! m)\<lparr>m_pc := Mon_Close\<rparr>]\<rparr>"
  | (close) "m < length (monitors s)" "m_pc (monitors s ! m) = Mon_Close"
      "\<not> waitCh_closed (heap s ! m_handler (monitors s ! m))"
      "s' = s\<lparr>heap := (heap s)[m_handler (monitors s ! m) :=
                (heap s ! m_handler (monitors s ! m))\<lparr>waitCh_closed := True\<rparr>],
              monitors := (monitors s)[m := (monitors s ! m)\<lparr>m_pc := Mon_Done\<rparr>]\<rparr>"
  | (panic) "m < length (monitors s)" "m_pc (monitors s ! m) = Mon_Close"
      "waitCh_closed (heap s ! m_handler (monitors s ! m))" "s' = s\<lparr>status := Panicked\<rparr>"
proof -
  from assms have m: "m < length (monitors s)"
    by (simp add: Let_def monitor_step_def split: if_splits)
  show ?thesis
  proof (cases "m_pc (monitors s ! m)")
    case Mon_Wait
    with assms m show ?thesis
      by (intro wake) (simp_all add: Let_def monitor_step_def set_mpc_def split: if_splits)
  next
    case Mon_Close
    show ?thesis
    proof (cases "waitCh_closed (heap s ! m_handler (monitors s ! m))")
      case True
      with Mon_Close assms m show ?thesis
        by (intro panic) (simp_all add: Let_def monitor_step_def continue_def close_waitCh_def)
    next
      case False
      with Mon_Close assms m show ?thesis
        by (intro close) (simp_all add: Let_def monitor_step_def continue_def close_waitCh_def set_mpc_def)
    qed
  next
    case Mon_Done
    with assms m show ?thesis by (simp add: Let_def monitor_step_def)
  qed
qed

lemma worker_step_cases [consumes 2, case_names fatal prepared lock print unlock closed released panic]:
  assumes "worker_step lib n s = Some s'" and run: "status s = Running"
  obtains
    (fatal) msg where "n < length (workers s)"
      "s' = s\<lparr>out := out s @ [\<lparr>ev = FatalLine msg, caller = T_worker n, lock_holder = mu s,
                of_cycle = w_cycle (workers s ! n)\<rparr>], status := Exited\<rparr>"
  | (prepared) "n < length (workers s)" "w_pc (workers s ! n) = W_Start"
      "s' = s\<lparr>workers := (workers s)[n := (workers s ! n)\<lparr>w_pc := W_Sent (clock s)\<rparr>]\<rparr>"
  | (lock) info cl where "n < length (workers s)" "w_pc (workers s ! n) = W_Fetched info cl" "mu s = None"
      "s' = s\<lparr>mu := Some (T_worker n),
              workers := (workers s)[n := (workers s ! n)\<lparr>w_pc := W_Locked info cl\<rparr>]\<rparr>"
  | (print) info cl where "n < length (workers s)" "w_pc (workers s ! n) = W_Locked info cl"
      "s' = s\<lparr>out := out s @ [\<lparr>ev = UnitReport info, caller = T_worker n, lock_holder = mu s,
                of_cycle = w_cycle (workers s ! n)\<rparr>],
              workers := (workers s)[n := (workers s ! n)\<lparr>w_pc := W_Printed cl\<rparr>]\<rparr>"
  | (unlock) cl where "n < length (workers s)" "w_pc (workers s ! n) = W_Printed cl" "mu s \<noteq> None"
      "s' = s\<lparr>mu := None, workers := (workers s)[n := (workers s ! n)\<lparr>w_pc := W_Closing cl\<rparr>]\<rparr>"
  | (closed) "n < length (workers s)" "w_pc (workers s ! n) = W_Closing None"
      "s' = s\<lparr>workers := (workers s)[n := (workers s ! n)\<lparr>w_pc := W_Releasing\<rparr>]\<rparr>"
  | (released) "n < length (workers s)" "w_pc (workers s ! n) = W_Releasing"
      "0 < wg (heap s ! w_wg (workers s ! n))"
      "s' = s\<lparr>heap := (heap s)[w_wg (workers s ! n) :=
                (heap s ! w_wg (workers s ! n))\<lparr>wg := wg (heap s ! w_wg (workers s ! n)) - 1\<rparr>],
              workers := (workers s)[n := (workers s ! n)\<lparr>w_pc := W_Finished\<rparr>]\<rparr>"
  | (panic) "n < length (workers s)" "s' = s\<lparr>status := Panicked\<rparr>"
      "(\<exists>cl. w_pc (workers s ! n) = W_Printed cl \<and> mu s = None) \<or>
       (w_pc (workers s ! n) = W_Releasing \<and> wg (heap s ! w_wg (workers s ! n)) \<le> 0)"
proof -
  from assms have n: "n < length (workers s)"
    by (simp add: Let_def worker_step_def split: if_splits)
  show ?thesis
  proof (cases "w_pc (workers s ! n)")
    case W_Start
    show ?thesis
    proof (cases "prepareHttpRequest lib")
      case (Inl err)
      with W_Start assms n show ?thesis
        by (intro fatal [of "''Failed to prepare GET request: '' @ err"])
          (simp_all add: Let_def worker_step_def log_Fatalf_def log_line_def)
    next
      case (Inr req)
      with W_Start assms n show ?thesis
        by (intro prepared) (simp_all add: Let_def worker_step_def set_wpc_def)
    qed
  next
    case (W_Sent t0)
    with assms n show ?thesis by (simp add: Let_def worker_step_def)
  next
    case (W_Fetched info cl)
    with assms n show ?thesis
      by (intro lock [of info cl]) (simp_all add: Let_def worker_step_def set_wpc_def split: if_splits)
  next
    case (W_Locked info cl)
    with assms n show ?thesis
      by (intro print [of info cl]) (simp_all add: Let_def worker_step_def set_wpc_def log_line_def)
  next
    case (W_Printed cl)
    show ?thesis
    proof (cases "mu s = None")
      case True
      with W_Printed assms n show ?thesis
        by (intro panic) (simp_all add: Let_def worker_step_def continue_def mu_Unlock_def)
    next
      case False
      with W_Printed assms n show ?thesis
        by (intro unlock [of cl]) (auto simp: Let_def worker_step_def continue_def mu_Unlock_def set_wpc_def)
    qed
  next
    case (W_Closing cl)
    show ?thesis
    proof (cases cl)
      case None
      with W_Closing assms n show ?thesis
        by (intro closed) (simp_all add: Let_def worker_step_def set_wpc_def)
    next
      case (Some err)
      with W_Closing assms n show ?thesis
        by (intro fatal [of "''Failed to close response body: '' @ err"])
          (simp_all add: Let_def worker_step_def log_Fatalf_def log_line_def)
    qed
  next
    case W_Releasing
    show ?thesis
    proof (cases "0 < wg (heap s ! w_wg (workers s ! n))")
      case True
      with W_Releasing assms n show ?thesis
        by (intro released) (simp_all add: Let_def worker_step_def continue_def wg_Done_def wg_Add_def set_wpc_def)
    next
      case False
      with W_Releasing assms n show ?thesis
        by (intro panic) (simp_all add: Let_def worker_step_def continue_def wg_Done_def wg_Add_def)
    qed
  next
    case W_Finished
    with assms n show ?thesis by (simp add: Let_def worker_step_def)
  qed
qed

lemma recv_step_cases [consumes 1, case_names fatal fetched]:
  assumes "recv_step lib n r s = Some s'"
  obtains
    (fatal) msg where "n < length (workers s)"
      "s' = s\<lparr>out := out s @ [\<lparr>ev = FatalLine msg, caller = T_worker n, lock_holder = mu s,
                of_cycle = w_cycle (workers s ! n)\<rparr>], status := Exited\<rparr>"
  | (fetched) t0 resp info where "n < length (workers s)" "w_pc (workers s ! n) = W_Sent t0"
      "r = Inr resp"
      "apiQueryWorker_decode lib (w_index (workers s ! n)) (clock s - t0) resp = Fetched info"
      "s' = s\<lparr>workers := (workers s)[n := (workers s ! n)\<lparr>w_pc := W_Fetched info (BodyClose resp)\<rparr>]\<rparr>"
proof -
  from assms have n: "n < length (workers s)"
    by (simp add: Let_def recv_step_def split: if_splits)
  from assms n obtain t0 where pc: "w_pc (workers s ! n) = W_Sent t0"
    by (cases "w_pc (workers s ! n)") (simp_all add: Let_def recv_step_def)
  show ?thesis
  proof (cases r)
    case (Inl err)
    with pc assms n show ?thesis
      by (intro fatal [of "''Failed to perform GET request: '' @ err"])
        (simp_all add: Let_def recv_step_def log_Fatalf_def log_line_def)
  next
    case (Inr resp)
    show ?thesis
    proof (cases "apiQueryWorker_decode lib (w_index (workers s ! n)) (clock s - t0) resp")
      case (Fatalf msg)
      with Inr pc assms n show ?thesis
        by (intro fatal [of msg]) (simp_all add: Let_def recv_step_def log_Fatalf_def log_line_def)
    next
      case (Fetched info)
      with Inr pc assms n show ?thesis
        by (intro fetched [of t0 resp info]) (simp_all add: Let_def recv_step_def set_wpc_def)
    qed
  qed
qed

lemma step_cases [consumes 1, case_names tick main select worker recv monitor]:
  assumes "step lib s a = Some s'"
  obtains
    (tick) d where "a = Tick d" "status s = Running" "s' = s\<lparr>clock := clock s + int d\<rparr>"
  | (main) "a = Main" "status s = Running" "main_step s = Some s'"
  | (select) c where "a = Select c" "status s = Running" "select_step c s = Some s'"
  | (worker) n where "a = Worker n" "status s = Running" "worker_step lib n s = Some s'"
  | (recv) n r where "a = Recv n r" "status s = Running" "recv_step lib n r s = Some s'"
  | (monitor) m where "a = Monitor m" "status s = Running" "monitor_step m s = Some s'"
  using assms by (cases a) (simp_all add: step_def split: if_splits)

section \<open>Preservation of the invariants\<close>

text \<open>A property that holds initially and is kept by every step holds after every run.\<close>

lemma run_invariant:
  assumes "run lib sched s = Some s'" and "P s"
    and "\<And>t a t'. P t \<Longrightarrow> step lib t a = Some t' \<Longrightarrow> P t'"
  shows "P s'"
  using assms(1,2)
proof (induction sched arbitrary: s)
  case Nil
  then show ?case by simp
next
  case (Cons a sched)
  then show ?case by (auto split: option.splits intro: assms(3))
qed

subsection \<open>Mutex and heap\<close>

lemma heap_inv_wg: "heap_inv s \<Longrightarrow> w \<in> set (workers s) \<Longrightarrow> w_wg w < length (heap s)"
  unfolding heap_inv_def by blast

lemma heap_inv_w_cycle: "heap_inv s \<Longrightarrow> w \<in> set (workers s) \<Longrightarrow> w_wg w = w_cycle w"
  unfolding heap_inv_def by blast

lemma heap_inv_length:
  "heap_inv s \<Longrightarrow> length (heap s) = (if mpc s = M_New then cycle s else Suc (cycle s))"
  unfolding heap_inv_def by simp

lemma heap_inv_current: "heap_inv s \<Longrightarrow> mpc s \<noteq> M_New \<Longrightarrow> intervalHandler s = cycle s"
  unfolding heap_inv_def by blast

lemma mu_inv_init: "mu_inv init"
  by (simp add: mu_inv_def init_def)

lemma mu_inv_step:
  assumes "mu_inv s" and "step lib s a = Some s'"
  shows "mu_inv s'"
  using assms(2)
proof (cases rule: step_cases)
  case (tick d)
  with assms(1) show ?thesis by (simp add: mu_inv_def)
next
  case main
  from main(3,2) assms(1) show ?thesis
    by (cases rule: main_step_cases) (auto simp: mu_inv_def nth_append)
next
  case (select c)
  from select(3) assms(1) show ?thesis
    by (cases rule: select_step_cases) (auto simp: mu_inv_def)
next
  case (worker n)
  have uniq: "k = n" if "n < length (workers s)" "k < length (workers s)"
    "holds_lock (w_pc (workers s ! n))" "holds_lock (w_pc (workers s ! k))" for k
  proof -
    from that assms(1) have "mu s = Some (T_worker n)" "mu s = Some (T_worker k)"
      unfolding mu_inv_def by blast+
    then show ?thesis by simp
  qed
  from worker(3,2) assms(1) show ?thesis
    by (cases rule: worker_step_cases) (auto simp: mu_inv_def nth_list_update dest: uniq)
next
  case (recv n r)
  from recv(3) assms(1) show ?thesis
    by (cases rule: recv_step_cases) (auto simp: mu_inv_def nth_list_update)
next
  case (monitor m)
  from monitor(3,2) assms(1) show ?thesis
    by (cases rule: monitor_step_cases) (auto simp: mu_inv_def)
qed

lemma heap_inv_init: "heap_inv init"
  by (simp add: heap_inv_def init_def)

lemma heap_inv_step:
  assumes "heap_inv s" and "step lib s a = Some s'"
  shows "heap_inv s'"
  using assms(2)
proof (cases rule: step_cases)
  case (tick d)
  with assms(1) show ?thesis by (auto simp: heap_inv_def)
next
  case main
  from main(3,2) assms(1) show ?thesis
    by (cases rule: main_step_cases) (auto simp: heap_inv_def FetchesAmount_def less_Suc_eq)
next
  case (select c)
  from select(3) assms(1) show ?thesis
    by (cases rule: select_step_cases) (auto simp: heap_inv_def)
next
  case (worker n)
  from worker(3,2) assms(1) show ?thesis
    by (cases rule: worker_step_cases) (auto simp: heap_inv_def dest!: set_update_subset_insert [THEN subsetD])
next
  case (recv n r)
  from recv(3) assms(1) show ?thesis
    by (cases rule: recv_step_cases) (auto simp: heap_inv_def dest!: set_update_subset_insert [THEN subsetD])
next
  case (monitor m)
  from monitor(3,2) assms(1) show ?thesis
    by (cases rule: monitor_step_cases) (auto simp: heap_inv_def)
qed

subsection \<open>Units and countdown\<close>

lemma length_filter_update:
  "n < length xs \<Longrightarrow>
     length (filter P (xs[n := y])) + (if P (xs ! n) then 1 else 0) =
     length (filter P xs) + (if P y then 1 else 0)"
proof (induction xs arbitrary: n)
  case Nil
  then show ?case by simp
next
  case (Cons x xs)
  then show ?case by (cases n) auto
qed

lemma map_filter_update:
  "n < length xs \<Longrightarrow> f y = f (xs ! n) \<Longrightarrow> P y = P (xs ! n) \<Longrightarrow>
     map f (filter P (xs[n := y])) = map f (filter P xs)"
proof (induction xs arbitrary: n)
  case Nil
  then show ?case by simp
next
  case (Cons x xs)
  then show ?case by (cases n) auto
qed

lemma on_handler_set_pc:
  "n < length ws \<Longrightarrow>
     map w_index (on_handler h (ws[n := (ws ! n)\<lparr>w_pc := pc\<rparr>])) = map w_index (on_handler h ws)"
  unfolding on_handler_def by (rule map_filter_update) simp_all

lemma finished_set_pc:
  assumes "n < length ws"
  shows "finished h (ws[n := (ws ! n)\<lparr>w_pc := pc\<rparr>])
       + (if w_wg (ws ! n) = h \<and> w_pc (ws ! n) = W_Finished then 1 else 0) =
     finished h ws + (if w_wg (ws ! n) = h \<and> pc = W_Finished then 1 else 0)"
proof -
  let ?P = "\<lambda>w. w_wg w = h \<and> w_pc w = W_Finished"
  from assms have "length (filter ?P (ws[n := (ws ! n)\<lparr>w_pc := pc\<rparr>])) + (if ?P (ws ! n) then 1 else 0) =
      length (filter ?P ws) + (if ?P ((ws ! n)\<lparr>w_pc := pc\<rparr>) then 1 else 0)"
    by (rule length_filter_update)
  then show ?thesis by (simp add: finished_def)
qed

lemma finished_keep:
  "n < length ws \<Longrightarrow> w_pc (ws ! n) \<noteq> W_Finished \<Longrightarrow> pc \<noteq> W_Finished \<Longrightarrow>
     finished h (ws[n := (ws ! n)\<lparr>w_pc := pc\<rparr>]) = finished h ws"
  using finished_set_pc [of n ws h pc] by simp

lemma finished_release:
  "n < length ws \<Longrightarrow> w_pc (ws ! n) \<noteq> W_Finished \<Longrightarrow>
     finished h (ws[n := (ws ! n)\<lparr>w_pc := W_Finished\<rparr>]) =
     finished h ws + (if w_wg (ws ! n) = h then 1 else 0)"
  using finished_set_pc [of n ws h W_Finished] by simp

lemma finished_le: "finished h ws \<le> length (on_handler h ws)"
  unfolding finished_def on_handler_def by (induction ws) auto

lemma finished_less:
  "n < length ws \<Longrightarrow> w_wg (ws ! n) = h \<Longrightarrow> w_pc (ws ! n) \<noteq> W_Finished \<Longrightarrow>
     finished h ws < length (on_handler h ws)"
proof (induction ws arbitrary: n)
  case Nil
  then show ?case by simp
next
  case (Cons w ws)
  show ?case
  proof (cases n)
    case 0
    with Cons.prems finished_le [of h ws] show ?thesis
      by (simp add: finished_def on_handler_def)
  next
    case (Suc k)
    with Cons have "finished h ws < length (on_handler h ws)" by simp
    then show ?thesis by (simp add: finished_def on_handler_def)
  qed
qed

lemma units_inv_init: "units_inv init"
  by (simp add: units_inv_def init_def on_handler_def launched_def)

lemma units_inv_step:
  assumes "units_inv s" and "heap_inv s" and "step lib s a = Some s'"
  shows "units_inv s'"
  using assms(3)
proof (cases rule: step_cases)
  case (tick d)
  with assms(1) show ?thesis by (simp add: units_inv_def launched_def)
next
  case main
  from main(3,2) assms(1,2) show ?thesis
    by (cases rule: main_step_cases)
      (auto simp: units_inv_def launched_def on_handler_def heap_inv_def FetchesAmount_def)
next
  case (select c)
  from select(3) assms(1) show ?thesis
    by (cases rule: select_step_cases) (auto simp: units_inv_def launched_def)
next
  case (worker n)
  from worker(3,2) assms(1) show ?thesis
    by (cases rule: worker_step_cases) (auto simp: units_inv_def launched_def on_handler_set_pc)
next
  case (recv n r)
  from recv(3) assms(1) show ?thesis
    by (cases rule: recv_step_cases) (auto simp: units_inv_def launched_def on_handler_set_pc)
next
  case (monitor m)
  from monitor(3,2) assms(1) show ?thesis
    by (cases rule: monitor_step_cases) (auto simp: units_inv_def launched_def)
qed

lemma launched_pos_added: "0 < launched s h \<Longrightarrow> added s h"
  by (cases "mpc s") (auto simp: launched_def added_def split: if_splits)

lemma launched_le: "heap_inv s \<Longrightarrow> launched s h \<le> FetchesAmount"
  by (simp add: launched_def heap_inv_def)

lemma units_inv_length: "units_inv s \<Longrightarrow> length (on_handler h (workers s)) = launched s h"
proof -
  assume "units_inv s"
  then have "map w_index (on_handler h (workers s)) = [0..<launched s h]"
    by (simp add: units_inv_def)
  then have "length (map w_index (on_handler h (workers s))) = length [0..<launched s h]"
    by simp
  then show ?thesis by simp
qed

text \<open>A unit that has not finished yet keeps the counter of its handler positive.\<close>

lemma wg_positive:
  assumes "wg_inv s" "units_inv s" "heap_inv s"
    and "n < length (workers s)" "w_pc (workers s ! n) \<noteq> W_Finished"
  shows "0 < wg (heap s ! w_wg (workers s ! n))"
proof -
  let ?h = "w_wg (workers s ! n)"
  from assms(4) have mem: "workers s ! n \<in> set (workers s)" by simp
  with assms(3) have h: "?h < length (heap s)" by (rule heap_inv_wg)
  from assms(4,5) have less: "finished ?h (workers s) < length (on_handler ?h (workers s))"
    by (intro finished_less) simp_all
  with assms(2) have l: "finished ?h (workers s) < launched s ?h"
    by (simp add: units_inv_length)
  then have "added s ?h" by (intro launched_pos_added) simp
  with assms(1) h have "wg (heap s ! ?h) + int (finished ?h (workers s)) = int FetchesAmount"
    by (simp add: wg_inv_def)
  with l launched_le [OF assms(3), of ?h] show ?thesis by simp
qed

lemma wg_update_closed [simp]:
  "wg (hs[i := (hs ! i)\<lparr>waitCh_closed := b\<rparr>] ! j) = wg (hs ! j)"
  by (cases "i = j"; cases "i < length hs") (simp_all add: list_update_beyond)

lemma closed_update_wg [simp]:
  "waitCh_closed (hs[i := (hs ! i)\<lparr>wg := v\<rparr>] ! j) = waitCh_closed (hs ! j)"
  by (cases "i = j"; cases "i < length hs") (simp_all add: list_update_beyond)

lemma wg_update_wg [simp]:
  "wg (hs[i := (hs ! i)\<lparr>wg := v\<rparr>] ! j) = (if i = j \<and> j < length hs then v else wg (hs ! j))"
  by (cases "i = j"; cases "i < length hs") (simp_all add: list_update_beyond)

lemma closed_update_closed [simp]:
  "waitCh_closed (hs[i := (hs ! i)\<lparr>waitCh_closed := b\<rparr>] ! j) =
     (if i = j \<and> j < length hs then b else waitCh_closed (hs ! j))"
  by (cases "i = j"; cases "i < length hs") (simp_all add: list_update_beyond)

lemma wg_inv_init: "wg_inv init"
  by (simp add: wg_inv_def init_def)

lemma finished_none: "\<forall>w \<in> set ws. w_wg w \<noteq> h \<Longrightarrow> finished h ws = 0"
  by (induction ws) (auto simp: finished_def)

lemma finished_append [simp]: "finished h (ws @ vs) = finished h ws + finished h vs"
  by (simp add: finished_def)

lemma wg_inv_step:
  assumes "wg_inv s" and "heap_inv s" and "step lib s a = Some s'"
  shows "wg_inv s'"
  using assms(3)
proof (cases rule: step_cases)
  case (tick d)
  with assms(1) show ?thesis by (simp add: wg_inv_def added_def)
next
  case main
  from main(3,2) show ?thesis
  proof (cases rule: main_step_cases)
    case new
    from assms(2) have "finished (length (heap s)) (workers s) = 0"
      by (intro finished_none) (auto dest: heap_inv_wg)
    with new assms(1) heap_inv_length [OF assms(2)] show ?thesis
      by (auto simp: wg_inv_def added_def nth_append less_Suc_eq)
  next
    case add
    with assms(1) heap_inv_length [OF assms(2)] heap_inv_current [OF assms(2)] show ?thesis
      by (auto simp: wg_inv_def added_def nth_list_update FetchesAmount_def)
  next
    case (spawn i)
    with assms(1) show ?thesis
      by (auto simp: wg_inv_def added_def finished_def)
  next
    case unlock_end
    with assms(1) heap_inv_length [OF assms(2)] show ?thesis
      by (auto simp: wg_inv_def added_def less_Suc_eq)
  qed (use assms(1) in \<open>auto simp: wg_inv_def added_def\<close>)
next
  case (select c)
  from select(3) assms(1) show ?thesis
    by (cases rule: select_step_cases) (auto simp: wg_inv_def added_def)
next
  case (worker n)
  from worker(3,2) assms(1) show ?thesis
    by (cases rule: worker_step_cases)
      (auto simp: wg_inv_def added_def finished_keep finished_release nth_list_update)
next
  case (recv n r)
  from recv(3) assms(1) show ?thesis
    by (cases rule: recv_step_cases) (auto simp: wg_inv_def added_def finished_keep)
next
  case (monitor m)
  from monitor(3,2) assms(1) show ?thesis
    by (cases rule: monitor_step_cases) (auto simp: wg_inv_def added_def)
qed

subsection \<open>Monitors, channels and the absence of panics\<close>

lemma mon_inv_init: "mon_inv init"
  by (simp add: mon_inv_def init_def)

lemma mon_inv_step:
  assumes "mon_inv s" and "heap_inv s" and "step lib s a = Some s'"
  shows "mon_inv s'"
  using assms(3)
proof (cases rule: step_cases)
  case (tick d)
  with assms(1) show ?thesis by (simp add: mon_inv_def)
next
  case main
  from main(3,2) assms(1) heap_inv_length [OF assms(2)] heap_inv_current [OF assms(2)] show ?thesis
    by (cases rule: main_step_cases)
      (auto simp: mon_inv_def nth_append nth_list_update less_Suc_eq)
next
  case (select c)
  from select(3) assms(1) show ?thesis
    by (cases rule: select_step_cases) (auto simp: mon_inv_def)
next
  case (worker n)
  from worker(3,2) assms(1) show ?thesis
    by (cases rule: worker_step_cases) (auto simp: mon_inv_def nth_list_update split: if_splits)
next
  case (recv n r)
  from recv(3) assms(1) show ?thesis
    by (cases rule: recv_step_cases) (auto simp: mon_inv_def)
next
  case (monitor m)
  from monitor(3,2) assms(1) heap_inv_length [OF assms(2)] show ?thesis
    by (cases rule: monitor_step_cases) (auto simp: mon_inv_def nth_list_update split: if_splits)
qed

lemma mon_inv_close:
  "mon_inv s \<Longrightarrow> m < length (monitors s) \<Longrightarrow> m_pc (monitors s ! m) = Mon_Close \<Longrightarrow>
     \<not> waitCh_closed (heap s ! m_handler (monitors s ! m))"
  unfolding mon_inv_def by auto

lemma no_panic_step:
  assumes "inv s" and "step lib s a = Some s'"
  shows "status s' \<noteq> Panicked"
  using assms(2)
proof (cases rule: step_cases)
  case (tick d)
  then show ?thesis by simp
next
  case main
  from assms(1) have i: "mu_inv s" "heap_inv s" "units_inv s" "wg_inv s"
    by (simp_all add: inv_def)
  from main(3,2) show ?thesis
  proof (cases rule: main_step_cases)
    case panic
    from panic(2) show ?thesis
    proof
      assume a: "mpc s = M_Add \<and> wg (heap s ! intervalHandler s) + 10 < 0"
      with i(2) have h: "intervalHandler s = cycle s" "cycle s < length (heap s)"
        using heap_inv_length [of s] heap_inv_current [of s] by simp_all
      with a i(4) have "wg (heap s ! cycle s) + int (finished (cycle s) (workers s)) = 0"
        by (simp add: wg_inv_def added_def)
      moreover from a i(3) have "length (on_handler (cycle s) (workers s)) = 0"
        by (simp add: units_inv_length launched_def)
      with finished_le [of "cycle s" "workers s"] have "finished (cycle s) (workers s) = 0"
        by simp
      ultimately show ?thesis using a h by simp
    next
      assume "(mpc s = M_UnlockBegin \<or> mpc s = M_UnlockEnd) \<and> mu s = None"
      with i(1) show ?thesis by (auto simp: mu_inv_def)
    qed
  qed (use main(2) in simp_all)
next
  case (select c)
  from select(3,2) show ?thesis
    by (cases rule: select_step_cases) simp_all
next
  case (worker n)
  from assms(1) have i: "mu_inv s" "heap_inv s" "units_inv s" "wg_inv s"
    by (simp_all add: inv_def)
  from worker(3,2) show ?thesis
  proof (cases rule: worker_step_cases)
    case panic
    from panic(3) show ?thesis
    proof
      assume "\<exists>cl. w_pc (workers s ! n) = W_Printed cl \<and> mu s = None"
      with i(1) panic(1) show ?thesis by (auto simp: mu_inv_def)
    next
      assume a: "w_pc (workers s ! n) = W_Releasing \<and> wg (heap s ! w_wg (workers s ! n)) \<le> 0"
      with panic(1) wg_positive [OF i(4) i(3) i(2), of n] show ?thesis by simp
    qed
  qed (use worker(2) in simp_all)
next
  case (recv n r)
  from recv(3,2) show ?thesis
    by (cases rule: recv_step_cases) simp_all
next
  case (monitor m)
  from assms(1) have i: "mon_inv s" by (simp add: inv_def)
  from monitor(3,2) show ?thesis
  proof (cases rule: monitor_step_cases)
    case panic
    with mon_inv_close [OF i, of m] show ?thesis by simp
  qed (use monitor(2) in simp_all)
qed

lemma inv_init: "inv init"
  by (simp add: inv_def mu_inv_init heap_inv_init units_inv_init wg_inv_init mon_inv_init)
    (simp add: init_def)

lemma inv_step: "inv s \<Longrightarrow> step lib s a = Some s' \<Longrightarrow> inv s'"
  using mu_inv_step [of s lib a s'] heap_inv_step [of s lib a s'] units_inv_step [of s lib a s']
    wg_inv_step [of s lib a s'] mon_inv_step [of s lib a s'] no_panic_step [of s lib a s']
  by (simp add: inv_def)

lemma inv_run: "run lib sched init = Some s \<Longrightarrow> inv s"
  by (rule run_invariant [where P = inv]) (auto intro: inv_init inv_step)

subsection \<open>Output, payload validity and time\<close>

lemma has_begin_append: "has_begin c es \<Longrightarrow> has_begin c (es @ fs)"
  unfolding has_begin_def by auto

lemma has_begin_snoc:
  "ev e = BeginMarker \<Longrightarrow> of_cycle e = c \<Longrightarrow> caller e = T_main \<Longrightarrow> lock_holder e = Some T_main \<Longrightarrow>
     has_begin c (es @ [e])"
  unfolding has_begin_def by auto

lemma begin_inv_init: "begin_inv init"
  by (simp add: begin_inv_def init_def)

lemma begin_inv_step:
  assumes "begin_inv s" and "mu_inv s" and "step lib s a = Some s'"
  shows "begin_inv s'"
  using assms(3)
proof (cases rule: step_cases)
  case (tick d)
  with assms(1) show ?thesis by (simp add: begin_inv_def)
next
  case main
  from main(3,2) assms(1,2) show ?thesis
    by (cases rule: main_step_cases)
      (auto simp: begin_inv_def mu_inv_def nth_append less_Suc_eq has_begin_append has_begin_snoc)
next
  case (select c)
  from select(3) assms(1) show ?thesis
    by (cases rule: select_step_cases) (auto simp: begin_inv_def)
next
  case (worker n)
  from worker(3,2) assms(1,2) show ?thesis
    by (cases rule: worker_step_cases)
      (auto simp: begin_inv_def mu_inv_def nth_append nth_list_update less_Suc_eq has_begin_append)
next
  case (recv n r)
  from recv(3) assms(1) show ?thesis
    by (cases rule: recv_step_cases)
      (auto simp: begin_inv_def nth_append nth_list_update less_Suc_eq has_begin_append)
next
  case (monitor m)
  from monitor(3,2) assms(1) show ?thesis
    by (cases rule: monitor_step_cases) (auto simp: begin_inv_def)
qed

lemma decode_valid:
  assumes "decoder_checks_syntax lib" and "apiQueryWorker_decode lib i el resp = Fetched info"
  shows "isJsonValid info"
proof -
  from assms(2) obtain content summary where
    c: "decompressGzippedResponse lib resp = Inr content"
    and u: "json_Unmarshal lib content = Inr summary"
    and v: "isJsonValid info = json_Valid lib content"
    by (auto simp: apiQueryWorker_decode_def Let_def split: sum.splits)
  from u assms(1) have "json_Valid lib content"
    unfolding decoder_checks_syntax_def by (metis sum.disc(2))
  with v show ?thesis by simp
qed

lemma valid_inv_init: "valid_inv init"
  by (simp add: valid_inv_def init_def)

lemma valid_inv_step:
  assumes "valid_inv s" and "decoder_checks_syntax lib" and "step lib s a = Some s'"
  shows "valid_inv s'"
  using assms(3)
proof (cases rule: step_cases)
  case (tick d)
  with assms(1) show ?thesis by (simp add: valid_inv_def)
next
  case main
  from main(3,2) assms(1) show ?thesis
    by (cases rule: main_step_cases) (auto simp: valid_inv_def nth_append less_Suc_eq)
next
  case (select c)
  from select(3) assms(1) show ?thesis
    by (cases rule: select_step_cases) (auto simp: valid_inv_def)
next
  case (worker n)
  from worker(3,2) assms(1) show ?thesis
    by (cases rule: worker_step_cases)
      (auto simp: valid_inv_def nth_append nth_list_update less_Suc_eq)
next
  case (recv n r)
  from recv(3) assms(1) show ?thesis
    by (cases rule: recv_step_cases)
      (auto simp: valid_inv_def nth_append nth_list_update less_Suc_eq
        dest: decode_valid [OF assms(2)])
next
  case (monitor m)
  from monitor(3,2) assms(1) show ?thesis
    by (cases rule: monitor_step_cases) (auto simp: valid_inv_def)
qed

lemma time_inv_init: "time_inv init"
  by (simp add: time_inv_def init_def)

lemma time_inv_step:
  assumes "time_inv s" and "step lib s a = Some s'"
  shows "time_inv s'"
  using assms(2)
proof (cases rule: step_cases)
  case (tick d)
  with assms(1) show ?thesis by (auto simp: time_inv_def)
next
  case main
  from main(3,2) assms(1) show ?thesis
    by (cases rule: main_step_cases) (auto simp: time_inv_def FetchInterval_def Second_def)
next
  case (select c)
  from select(3) assms(1) show ?thesis
    by (cases rule: select_step_cases) (auto simp: time_inv_def)
next
  case (worker n)
  from worker(3,2) assms(1) show ?thesis
    by (cases rule: worker_step_cases) (auto simp: time_inv_def)
next
  case (recv n r)
  from recv(3) assms(1) show ?thesis
    by (cases rule: recv_step_cases) (auto simp: time_inv_def)
next
  case (monitor m)
  from monitor(3,2) assms(1) show ?thesis
    by (cases rule: monitor_step_cases) (auto simp: time_inv_def)
qed

text \<open>The definitions that a concrete run unfolds.\<close>

lemmas eval_defs = test_lib_def test_body_def test_resp_def unit_ok_def launch_def
  init_def step_def main_step_def select_step_def monitor_step_def worker_step_def recv_step_def
  set_wpc_def set_mpc_def close_waitCh_def wg_Done_def wg_Add_def mu_Unlock_def log_Fatalf_def
  log_line_def continue_def apiQueryWorker_decode_def decompressGzippedResponse_def
  prepareHttpRequest_def gzip_NewReader_def Header_Get_def rateOutOfScope_of_def FetchesAmount_def
  FetchInterval_def Second_def addHeaders_def Let_def

section \<open>Reachable states\<close>

lemma reachable_inv:
  assumes "run lib sched init = Some s"
  shows "inv s \<and> begin_inv s \<and> time_inv s"
  using assms
proof (rule run_invariant [where P = "\<lambda>s. inv s \<and> begin_inv s \<and> time_inv s"])
  show "inv init \<and> begin_inv init \<and> time_inv init"
    by (simp add: inv_init begin_inv_init time_inv_init)
next
  fix t a t'
  assume "inv t \<and> begin_inv t \<and> time_inv t" and "step lib t a = Some t'"
  then show "inv t' \<and> begin_inv t' \<and> time_inv t'"
    using inv_step [of t lib a t'] begin_inv_step [of t lib a t'] time_inv_step [of t lib a t']
    by (simp add: inv_def)
qed

lemma reachable_valid:
  assumes "run lib sched init = Some s" and "decoder_checks_syntax lib"
  shows "valid_inv s"
  using assms(1)
  by (rule run_invariant [where P = valid_inv]) (auto intro: valid_inv_init valid_inv_step assms(2))

lemma owner_inv_init: "owner_inv init"
  by (simp add: owner_inv_def init_def)

lemma owner_inv_step:
  assumes "owner_inv s" and "step lib s a = Some s'"
  shows "owner_inv s'"
  using assms(2)
proof (cases rule: step_cases)
  case (tick d)
  with assms(1) show ?thesis by (simp add: owner_inv_def)
next
  case main
  from main(3,2) assms(1) show ?thesis
    by (cases rule: main_step_cases) (auto simp: owner_inv_def nth_append)
next
  case (select c)
  from select(3) assms(1) show ?thesis
    by (cases rule: select_step_cases) (auto simp: owner_inv_def)
next
  case (worker n)
  from worker(3,2) assms(1) show ?thesis
    by (cases rule: worker_step_cases) (auto simp: owner_inv_def nth_list_update)
next
  case (recv n r)
  from recv(3) assms(1) show ?thesis
    by (cases rule: recv_step_cases) (auto simp: owner_inv_def nth_list_update)
next
  case (monitor m)
  from monitor(3,2) assms(1) show ?thesis
    by (cases rule: monitor_step_cases) (auto simp: owner_inv_def)
qed

lemma reachable_owner: "run lib sched init = Some s \<Longrightarrow> owner_inv s"
  by (rule run_invariant [where P = owner_inv]) (auto intro: owner_inv_init owner_inv_step)

lemma inv_monitor_heap:
  assumes "mon_inv s" and "heap_inv s" and "m < length (monitors s)"
  shows "m < length (heap s)"
proof -
  from assms(1) have "length (monitors s) = (if monitored_now (mpc s) then cycle s + 1 else cycle s)"
    by (simp add: mon_inv_def)
  moreover have "monitored_now (mpc s) \<Longrightarrow> mpc s \<noteq> M_New" by auto
  ultimately show ?thesis
    using heap_inv_length [OF assms(2)] assms(3) by (auto split: if_splits)
qed

lemma exit_keeps_heap:
  assumes "step lib s a = Some s1" and "status s1 = Exited"
  shows "heap s1 = heap s \<and> workers s1 = workers s \<and> monitors s1 = monitors s"
  using assms(1)
proof (cases rule: step_cases)
  case (tick d)
  with assms(2) show ?thesis by simp
next
  case main
  from main(3,2) main(2) assms(2) show ?thesis
    by (cases rule: main_step_cases) simp_all
next
  case (select c)
  from select(3,2) assms(2) show ?thesis
    by (cases rule: select_step_cases) simp_all
next
  case (worker n)
  from worker(3,2) worker(2) assms(2) show ?thesis
    by (cases rule: worker_step_cases) simp_all
next
  case (recv n r)
  from recv(3,2) assms(2) show ?thesis
    by (cases rule: recv_step_cases) simp_all
next
  case (monitor m)
  from monitor(3,2) monitor(2) assms(2) show ?thesis
    by (cases rule: monitor_step_cases) simp_all
qed

lemma run_append:
  "run lib (xs @ ys) s = (case run lib xs s of None \<Rightarrow> None | Some s' \<Rightarrow> run lib ys s')"
  by (induction xs arbitrary: s) (auto split: option.splits)

lemma run_snoc:
  "run lib xs s = Some t \<Longrightarrow> step lib t a = Some t' \<Longrightarrow> run lib (xs @ [a]) s = Some t'"
  by (simp add: run_append)

lemma test_lib_checks_syntax: "decoder_checks_syntax test_lib"
  by (simp add: decoder_checks_syntax_def test_lib_def)

section \<open>The claims about the coordinator and the fetch units\<close>

text \<open>
  Claim C1 as stated fails: when \<^verbatim>\<open>client.Do\<close> of unit 0 returns an error, the
  process exits with the unit still before its release and the countdown at 10.
\<close>

theorem C1_counterexample:
  "run test_lib sched_transport_error init \<noteq> None
   \<and> status (the (run test_lib sched_transport_error init)) = Exited
   \<and> w_pc (workers (the (run test_lib sched_transport_error init)) ! 0) = W_Sent 0
   \<and> w_wg (workers (the (run test_lib sched_transport_error init)) ! 0) = 0
   \<and> wg (heap (the (run test_lib sched_transport_error init)) ! 0) = 10
   \<and> step test_lib (the (run test_lib sched_transport_error init)) (Worker 0) = None
   \<and> step test_lib (the (run test_lib sched_transport_error init)) (Monitor 0) = None"
  by (simp add: sched_transport_error_def eval_defs)

text \<open>
  Claim C1, as amended. A fetch unit that runs to its end releases the countdown
  exactly once, as its last step: the countdown of a cycle equals 10 minus the
  number of its finished units, so it is zero when all ten have finished; the
  releasing step lowers it by one, and a finished unit takes no further step. A
  unit that hits an error (request construction, transport, decompression or
  decoding, closing the body) does not release the countdown: \<^verbatim>\<open>log.Fatalf\<close> ends
  the process, leaving handlers and units as they were, and afterwards no
  goroutine, the coordinator included, takes a step or waits.
\<close>

theorem C1_release_on_return:
  assumes "run lib sched init = Some s"
  shows "(\<forall>h < length (heap s). added s h \<longrightarrow>
            wg (heap s ! h) = 10 - int (finished h (workers s)))
       \<and> (\<forall>h < length (heap s). finished h (workers s) = 10 \<longrightarrow> wg (heap s ! h) = 0)
       \<and> (\<forall>n < length (workers s). status s = Running \<and> w_pc (workers s ! n) = W_Releasing \<longrightarrow>
            (\<exists>s1. step lib s (Worker n) = Some s1 \<and> w_pc (workers s1 ! n) = W_Finished \<and>
               status s1 = Running \<and>
               wg (heap s1 ! w_wg (workers s ! n)) = wg (heap s ! w_wg (workers s ! n)) - 1))
       \<and> (\<forall>n < length (workers s). w_pc (workers s ! n) = W_Finished \<longrightarrow>
            (\<forall>r. step lib s (Worker n) = None \<and> step lib s (Recv n r) = None))
       \<and> (\<forall>n < length (workers s). status s = Running \<longrightarrow>
            (w_pc (workers s ! n) = W_Start \<and> isl (prepareHttpRequest lib) \<longrightarrow>
               (\<exists>s1. step lib s (Worker n) = Some s1 \<and> status s1 = Exited)) \<and>
            (\<forall>t0 err. w_pc (workers s ! n) = W_Sent t0 \<longrightarrow>
               (\<exists>s1. step lib s (Recv n (Inl err)) = Some s1 \<and> status s1 = Exited)) \<and>
            (\<forall>t0 resp msg. w_pc (workers s ! n) = W_Sent t0 \<and>
               apiQueryWorker_decode lib (w_index (workers s ! n)) (clock s - t0) resp = Fatalf msg \<longrightarrow>
               (\<exists>s1. step lib s (Recv n (Inr resp)) = Some s1 \<and> status s1 = Exited)) \<and>
            (\<forall>err. w_pc (workers s ! n) = W_Closing (Some err) \<longrightarrow>
               (\<exists>s1. step lib s (Worker n) = Some s1 \<and> status s1 = Exited)))
       \<and> (\<forall>a s1. step lib s a = Some s1 \<and> status s1 = Exited \<longrightarrow>
            heap s1 = heap s \<and> workers s1 = workers s \<and> monitors s1 = monitors s \<and>
            (\<forall>b. step lib s1 b = None))"
proof -
  from assms have i: "heap_inv s" "units_inv s" "wg_inv s"
    using reachable_inv [of lib sched s] by (simp_all add: inv_def)
  have cnt: "\<forall>h < length (heap s). added s h \<longrightarrow>
      wg (heap s ! h) = 10 - int (finished h (workers s))"
    using i(3) by (auto simp: wg_inv_def FetchesAmount_def)
  have zero: "\<forall>h < length (heap s). finished h (workers s) = 10 \<longrightarrow> wg (heap s ! h) = 0"
  proof (intro allI impI)
    fix h
    assume h: "h < length (heap s)" and f: "finished h (workers s) = 10"
    from f finished_le [of h "workers s"] i(2) have "0 < launched s h"
      by (simp add: units_inv_length)
    then have "added s h" by (rule launched_pos_added)
    with cnt h f show "wg (heap s ! h) = 0" by simp
  qed
  have rel: "\<forall>n < length (workers s). status s = Running \<and> w_pc (workers s ! n) = W_Releasing \<longrightarrow>
      (\<exists>s1. step lib s (Worker n) = Some s1 \<and> w_pc (workers s1 ! n) = W_Finished \<and>
         status s1 = Running \<and>
         wg (heap s1 ! w_wg (workers s ! n)) = wg (heap s ! w_wg (workers s ! n)) - 1)"
  proof (intro allI impI)
    fix n
    assume n: "n < length (workers s)"
      and a: "status s = Running \<and> w_pc (workers s ! n) = W_Releasing"
    from n a have pos: "0 < wg (heap s ! w_wg (workers s ! n))"
      by (intro wg_positive [OF i(3) i(2) i(1)]) simp_all
    from n have "workers s ! n \<in> set (workers s)" by simp
    then have "w_wg (workers s ! n) < length (heap s)" by (rule heap_inv_wg [OF i(1)])
    with n a pos show "\<exists>s1. step lib s (Worker n) = Some s1 \<and> w_pc (workers s1 ! n) = W_Finished \<and>
         status s1 = Running \<and>
         wg (heap s1 ! w_wg (workers s ! n)) = wg (heap s ! w_wg (workers s ! n)) - 1"
      by (simp add: step_def worker_step_def Let_def wg_Done_def wg_Add_def continue_def set_wpc_def)
  qed
  have fin: "\<forall>n < length (workers s). w_pc (workers s ! n) = W_Finished \<longrightarrow>
      (\<forall>r. step lib s (Worker n) = None \<and> step lib s (Recv n r) = None)"
    by (simp add: step_def worker_step_def recv_step_def Let_def)
  have err: "\<forall>n < length (workers s). status s = Running \<longrightarrow>
      (w_pc (workers s ! n) = W_Start \<and> isl (prepareHttpRequest lib) \<longrightarrow>
         (\<exists>s1. step lib s (Worker n) = Some s1 \<and> status s1 = Exited)) \<and>
      (\<forall>t0 err. w_pc (workers s ! n) = W_Sent t0 \<longrightarrow>
         (\<exists>s1. step lib s (Recv n (Inl err)) = Some s1 \<and> status s1 = Exited)) \<and>
      (\<forall>t0 resp msg. w_pc (workers s ! n) = W_Sent t0 \<and>
         apiQueryWorker_decode lib (w_index (workers s ! n)) (clock s - t0) resp = Fatalf msg \<longrightarrow>
         (\<exists>s1. step lib s (Recv n (Inr resp)) = Some s1 \<and> status s1 = Exited)) \<and>
      (\<forall>err. w_pc (workers s ! n) = W_Closing (Some err) \<longrightarrow>
         (\<exists>s1. step lib s (Worker n) = Some s1 \<and> status s1 = Exited))"
    by (auto simp: step_def worker_step_def recv_step_def Let_def log_Fatalf_def log_line_def isl_def)
  have gone: "\<forall>a s1. step lib s a = Some s1 \<and> status s1 = Exited \<longrightarrow>
      heap s1 = heap s \<and> workers s1 = workers s \<and> monitors s1 = monitors s \<and>
      (\<forall>b. step lib s1 b = None)"
    using exit_keeps_heap [of lib s] by (auto simp: step_def)
  from cnt zero rel fin err gone show ?thesis by blast
qed

theorem C1_release_on_return_witness:
  "\<exists>s s1. run test_lib sched_released init = Some s \<and> (0::nat) < length (heap s) \<and> added s 0
     \<and> finished 0 (workers s) = 10 \<and> wg (heap s ! 0) = 0
     \<and> run test_lib sched_transport_error init = Some s1 \<and> status s1 = Exited
     \<and> step test_lib s1 Main = None"
proof -
  have "\<exists>s. run test_lib sched_released init = Some s \<and> (0::nat) < length (heap s) \<and> added s 0
     \<and> finished 0 (workers s) = 10"
    by (simp add: sched_released_def eval_defs added_def finished_def)
  then obtain s where s: "run test_lib sched_released init = Some s" "0 < length (heap s)"
    "added s 0" "finished 0 (workers s) = 10"
    by blast
  have "\<exists>s0 s1. run test_lib (launch @ [Worker 0]) init = Some s0 \<and> (0::nat) < length (workers s0)
     \<and> status s0 = Running \<and> w_pc (workers s0 ! 0) = W_Sent 0
     \<and> step test_lib s0 (Recv 0 (Inl ''connection refused'')) = Some s1"
    by (simp add: eval_defs)
  then obtain s0 s1 where s0: "run test_lib (launch @ [Worker 0]) init = Some s0"
    "0 < length (workers s0)" "status s0 = Running" "w_pc (workers s0 ! 0) = W_Sent 0"
    "step test_lib s0 (Recv 0 (Inl ''connection refused'')) = Some s1"
    by blast
  from C1_release_on_return [OF s(1)]
  have "\<forall>h < length (heap s). finished h (workers s) = 10 \<longrightarrow> wg (heap s ! h) = 0"
    by (elim conjE)
  with s have z: "wg (heap s ! 0) = 0" by simp
  from C1_release_on_return [OF s0(1)]
  have g: "\<forall>a s1. step test_lib s0 a = Some s1 \<and> status s1 = Exited \<longrightarrow>
      heap s1 = heap s0 \<and> workers s1 = workers s0 \<and> monitors s1 = monitors s0 \<and>
      (\<forall>b. step test_lib s1 b = None)"
    by (elim conjE)
  from s0(3,4,5) have e: "status s1 = Exited"
    by (auto simp: step_def recv_step_def Let_def log_Fatalf_def log_line_def split: if_splits)
  with g s0(5) have n: "step test_lib s1 Main = None" by blast
  from run_snoc [OF s0(1) s0(5)] have r: "run test_lib sched_transport_error init = Some s1"
    by (simp add: sched_transport_error_def)
  from s z r e n show ?thesis by blast
qed

text \<open>
  Claim C3. When the completion case of the \<^verbatim>\<open>select\<close> is taken, the coordinator
  calls \<^verbatim>\<open>time.Sleep\<close> with the cadence minus the time elapsed since the recorded
  start; a duration that is not positive means no sleep, a positive one blocks the
  coordinator until that much time has passed; and when the coordinator records the
  start of the next cycle, at least the cadence has passed since the start it
  recorded for the previous one.
\<close>

theorem C3_sleep_to_cadence:
  assumes "run lib sched init = Some s" and "status s = Running"
  shows "(mpc s = M_Since \<longrightarrow>
            (\<exists>s1. step lib s Main = Some s1 \<and>
               mpc s1 = M_Sleep (FetchInterval * Second - (clock s - start s))))
       \<and> (\<forall>d. mpc s = M_Sleep d \<longrightarrow>
            (\<exists>s1. step lib s Main = Some s1 \<and>
               mpc s1 = (if d \<le> 0 then M_LockEnd else M_Sleeping (clock s + d))))
       \<and> (\<forall>t. mpc s = M_Sleeping t \<longrightarrow>
            (if t \<le> clock s then \<exists>s1. step lib s Main = Some s1 \<and> mpc s1 = M_LockEnd
             else step lib s Main = None))
       \<and> (mpc s = M_Start \<and> resolved s = Some ViaDone \<longrightarrow>
            (\<exists>s1. step lib s Main = Some s1 \<and> start s1 = clock s \<and>
               start s + FetchInterval * Second \<le> start s1))"
proof -
  from assms(1) have t: "time_inv s" by (simp add: reachable_inv)
  have a: "mpc s = M_Since \<longrightarrow>
            (\<exists>s1. step lib s Main = Some s1 \<and>
               mpc s1 = M_Sleep (FetchInterval * Second - (clock s - start s)))"
    using assms(2) by (simp add: step_def main_step_def)
  have b: "\<forall>d. mpc s = M_Sleep d \<longrightarrow>
            (\<exists>s1. step lib s Main = Some s1 \<and>
               mpc s1 = (if d \<le> 0 then M_LockEnd else M_Sleeping (clock s + d)))"
    using assms(2) by (simp add: step_def main_step_def)
  have c: "\<forall>t. mpc s = M_Sleeping t \<longrightarrow>
            (if t \<le> clock s then \<exists>s1. step lib s Main = Some s1 \<and> mpc s1 = M_LockEnd
             else step lib s Main = None)"
    using assms(2) by (simp add: step_def main_step_def)
  have d: "mpc s = M_Start \<and> resolved s = Some ViaDone \<longrightarrow>
            (\<exists>s1. step lib s Main = Some s1 \<and> start s1 = clock s \<and>
               start s + FetchInterval * Second \<le> start s1)"
    using assms(2) t by (auto simp: step_def main_step_def time_inv_def)
  from a b c d show ?thesis by blast
qed

theorem C3_sleep_to_cadence_witness:
  "\<exists>s s1. run test_lib sched_done init = Some s \<and> status s = Running \<and> mpc s = M_Start
     \<and> resolved s = Some ViaDone \<and> start s = 0
     \<and> step test_lib s Main = Some s1 \<and> start s1 = 5000000000"
proof -
  have "\<exists>s. run test_lib sched_done init = Some s \<and> status s = Running \<and> mpc s = M_Start
     \<and> resolved s = Some ViaDone \<and> start s = 0 \<and> clock s = 5000000000"
    by (simp add: sched_done_def eval_defs)
  then obtain s where s: "run test_lib sched_done init = Some s" "status s = Running"
    "mpc s = M_Start" "resolved s = Some ViaDone" "start s = 0" "clock s = 5000000000"
    by blast
  from C3_sleep_to_cadence [OF s(1,2)]
  have "mpc s = M_Start \<and> resolved s = Some ViaDone \<longrightarrow>
      (\<exists>s1. step test_lib s Main = Some s1 \<and> start s1 = clock s \<and>
         start s + FetchInterval * Second \<le> start s1)"
    by (elim conjE)
  with s show ?thesis by auto
qed

text \<open>
  Claim C4 as stated fails: in this run the timer fires while unit 0 holds the
  mutex for its report. The coordinator has printed the timeout notice and stands
  before \<^verbatim>\<open>mu.Lock()\<close> of line 64; it cannot take its next step, it waits for the
  mutex that the outstanding unit holds.
\<close>

theorem C4_counterexample:
  "run test_lib sched_timeout_locked init \<noteq> None
   \<and> mpc (the (run test_lib sched_timeout_locked init)) = M_LockEnd
   \<and> resolved (the (run test_lib sched_timeout_locked init)) = Some ViaTimer
   \<and> status (the (run test_lib sched_timeout_locked init)) = Running
   \<and> mu (the (run test_lib sched_timeout_locked init)) = Some (T_worker 0)
   \<and> w_wg (workers (the (run test_lib sched_timeout_locked init)) ! 0) = 0
   \<and> wg (heap (the (run test_lib sched_timeout_locked init)) ! 0) = 10
   \<and> step test_lib (the (run test_lib sched_timeout_locked init)) Main = None"
  by (simp add: sched_timeout_locked_def eval_defs)

text \<open>
  Claim C4, as amended. When the timer has fired and the channel is not closed,
  only the timer case of the \<^verbatim>\<open>select\<close> is ready; the coordinator prints the
  timeout notice and goes on to the end marker and the next iteration without
  waiting for the outstanding units to complete: it never reads the countdown or
  the channel, and handlers and monitors stay as they are. With the mutex free it
  gets there by steps of its own, at the same instant. The one thing it waits for
  is the mutex for the end marker: if the mutex is taken, the holder is a unit that
  is printing its report; that unit frees the mutex within two steps of its own,
  still before its return and with the countdown untouched, and then the
  coordinator reaches the next iteration by three steps of its own.
\<close>

theorem C4_timeout_proceeds:
  assumes "run lib sched init = Some s" and "status s = Running" and "mpc s = M_Wait dl"
    and "dl \<le> clock s" and "\<not> waitCh_closed (heap s ! intervalHandler s)"
  shows "step lib s (Select ViaDone) = None
       \<and> (\<exists>s1 s2. step lib s (Select ViaTimer) = Some s1 \<and> step lib s1 Main = Some s2 \<and>
            out s2 = out s @ [\<lparr>ev = TimeoutNotice, caller = T_main, lock_holder = mu s, of_cycle = cycle s\<rparr>] \<and>
            mpc s2 = M_LockEnd \<and> status s2 = Running \<and> clock s2 = clock s \<and> mu s2 = mu s \<and>
            heap s2 = heap s \<and> workers s2 = workers s \<and> monitors s2 = monitors s \<and>
            (if mu s = None
             then \<exists>s3 s4 s5. step lib s2 Main = Some s3 \<and> step lib s3 Main = Some s4 \<and>
                    step lib s4 Main = Some s5 \<and>
                    out s5 = out s2 @ [\<lparr>ev = EndMarker, caller = T_main, lock_holder = Some T_main,
                                         of_cycle = cycle s\<rparr>] \<and>
                    mpc s5 = M_New \<and> cycle s5 = cycle s + 1 \<and> status s5 = Running \<and>
                    clock s5 = clock s \<and> heap s5 = heap s \<and> workers s5 = workers s \<and>
                    monitors s5 = monitors s
             else step lib s2 Main = None \<and>
                  (\<exists>n < length (workers s). mu s = Some (T_worker n) \<and>
                     holds_lock (w_pc (workers s ! n)) \<and>
                     (\<exists>us t s5. (us = [Worker n] \<or> us = [Worker n, Worker n]) \<and>
                        run lib us s2 = Some t \<and> mu t = None \<and> status t = Running \<and>
                        mpc t = M_LockEnd \<and> clock t = clock s \<and> heap t = heap s \<and>
                        monitors t = monitors s \<and> (\<exists>cl. w_pc (workers t ! n) = W_Closing cl) \<and>
                        run lib [Main, Main, Main] t = Some s5 \<and> mpc s5 = M_New \<and>
                        cycle s5 = cycle s + 1 \<and> status s5 = Running \<and> clock s5 = clock s \<and>
                        heap s5 = heap s \<and> workers s5 = workers t \<and> monitors s5 = monitors s))))"
proof -
  let ?e = "\<lparr>ev = TimeoutNotice, caller = T_main, lock_holder = mu s, of_cycle = cycle s\<rparr>"
  let ?s1 = "s\<lparr>mpc := M_Timeout, resolved := Some ViaTimer\<rparr>"
  let ?s2 = "s\<lparr>mpc := M_LockEnd, resolved := Some ViaTimer, out := out s @ [?e]\<rparr>"
  have d: "step lib s (Select ViaDone) = None"
    using assms(2,3,5) by (simp add: step_def select_step_def)
  have 1: "step lib s (Select ViaTimer) = Some ?s1"
    using assms(2,3,4) by (simp add: step_def select_step_def)
  have 2: "step lib ?s1 Main = Some ?s2"
    using assms(2) by (simp add: step_def main_step_def log_line_def)
  have rest: "if mu s = None
     then \<exists>s3 s4 s5. step lib ?s2 Main = Some s3 \<and> step lib s3 Main = Some s4 \<and>
            step lib s4 Main = Some s5 \<and>
            out s5 = out ?s2 @ [\<lparr>ev = EndMarker, caller = T_main, lock_holder = Some T_main,
                                 of_cycle = cycle s\<rparr>] \<and>
            mpc s5 = M_New \<and> cycle s5 = cycle s + 1 \<and> status s5 = Running \<and>
            clock s5 = clock s \<and> heap s5 = heap s \<and> workers s5 = workers s \<and>
            monitors s5 = monitors s
     else step lib ?s2 Main = None \<and>
          (\<exists>n < length (workers s). mu s = Some (T_worker n) \<and>
             holds_lock (w_pc (workers s ! n)) \<and>
             (\<exists>us t s5. (us = [Worker n] \<or> us = [Worker n, Worker n]) \<and>
                run lib us ?s2 = Some t \<and> mu t = None \<and> status t = Running \<and>
                mpc t = M_LockEnd \<and> clock t = clock s \<and> heap t = heap s \<and>
                monitors t = monitors s \<and> (\<exists>cl. w_pc (workers t ! n) = W_Closing cl) \<and>
                run lib [Main, Main, Main] t = Some s5 \<and> mpc s5 = M_New \<and>
                cycle s5 = cycle s + 1 \<and> status s5 = Running \<and> clock s5 = clock s \<and>
                heap s5 = heap s \<and> workers s5 = workers t \<and> monitors s5 = monitors s))"
  proof (cases "mu s = None")
    case True
    with assms(2) show ?thesis
      by (simp add: step_def main_step_def log_line_def mu_Unlock_def continue_def)
  next
    case False
    from assms(1) have o: "owner_inv s" by (rule reachable_owner)
    from False obtain t where t: "mu s = Some t" by auto
    from assms(3) have nm: "\<not> main_holds (mpc s)" by simp
    from o t nm obtain n where n: "t = T_worker n" "n < length (workers s)"
      "holds_lock (w_pc (workers s ! n))"
      by (cases t) (auto simp: owner_inv_def)
    have blocked: "step lib ?s2 Main = None"
      using False assms(2) by (simp add: step_def main_step_def)
    have "\<exists>us t s5. (us = [Worker n] \<or> us = [Worker n, Worker n]) \<and>
        run lib us ?s2 = Some t \<and> mu t = None \<and> status t = Running \<and>
        mpc t = M_LockEnd \<and> clock t = clock s \<and> heap t = heap s \<and>
        monitors t = monitors s \<and> (\<exists>cl. w_pc (workers t ! n) = W_Closing cl) \<and>
        run lib [Main, Main, Main] t = Some s5 \<and> mpc s5 = M_New \<and>
        cycle s5 = cycle s + 1 \<and> status s5 = Running \<and> clock s5 = clock s \<and>
        heap s5 = heap s \<and> workers s5 = workers t \<and> monitors s5 = monitors s"
    proof (cases "w_pc (workers s ! n)")
      case (W_Locked info cl)
      with n t assms(2) show ?thesis
        by (intro exI [of _ "[Worker n, Worker n]"])
          (simp add: step_def worker_step_def main_step_def Let_def log_line_def mu_Unlock_def
            continue_def set_wpc_def)
    next
      case (W_Printed cl)
      with n t assms(2) show ?thesis
        by (intro exI [of _ "[Worker n]"])
          (simp add: step_def worker_step_def main_step_def Let_def log_line_def mu_Unlock_def
            continue_def set_wpc_def)
    qed (use n(3) in simp_all)
    with False blocked n t show ?thesis by auto
  qed
  have b: "out ?s2 = out s @ [?e] \<and> mpc ?s2 = M_LockEnd \<and> status ?s2 = Running \<and>
      clock ?s2 = clock s \<and> mu ?s2 = mu s \<and> heap ?s2 = heap s \<and> workers ?s2 = workers s \<and>
      monitors ?s2 = monitors s"
    using assms(2) by simp
  from 1 2 b rest show ?thesis
    by (intro conjI [OF d] exI [of _ ?s1] exI [of _ ?s2]) blast
qed

theorem C4_timeout_proceeds_witness:
  "(\<exists>s s1 s2 s3 s4 s5. run test_lib sched_late init = Some s \<and> status s = Running
      \<and> mpc s = M_Wait 5000000000 \<and> 5000000000 \<le> clock s
      \<and> \<not> waitCh_closed (heap s ! intervalHandler s) \<and> mu s = None
      \<and> step test_lib s (Select ViaDone) = None
      \<and> step test_lib s (Select ViaTimer) = Some s1 \<and> step test_lib s1 Main = Some s2
      \<and> step test_lib s2 Main = Some s3 \<and> step test_lib s3 Main = Some s4
      \<and> step test_lib s4 Main = Some s5 \<and> mpc s5 = M_New \<and> cycle s5 = 1
      \<and> workers s5 = workers s \<and> heap s5 = heap s)
   \<and> (\<exists>s s1 s2 us t s5. run test_lib sched_wait_locked init = Some s \<and> status s = Running
      \<and> mpc s = M_Wait 5000000000 \<and> 5000000000 \<le> clock s
      \<and> \<not> waitCh_closed (heap s ! intervalHandler s) \<and> mu s = Some (T_worker 0)
      \<and> step test_lib s (Select ViaTimer) = Some s1 \<and> step test_lib s1 Main = Some s2
      \<and> step test_lib s2 Main = None
      \<and> (us = [Worker 0] \<or> us = [Worker 0, Worker 0]) \<and> run test_lib us s2 = Some t
      \<and> mu t = None \<and> run test_lib [Main, Main, Main] t = Some s5 \<and> mpc s5 = M_New
      \<and> cycle s5 = 1 \<and> heap s5 = heap s)"
proof -
  have "\<exists>s. run test_lib sched_late init = Some s \<and> status s = Running
     \<and> mpc s = M_Wait 5000000000 \<and> 5000000000 \<le> clock s
     \<and> \<not> waitCh_closed (heap s ! intervalHandler s) \<and> mu s = None \<and> cycle s = 0"
    by (simp add: sched_late_def eval_defs)
  then obtain s where s: "run test_lib sched_late init = Some s" "status s = Running"
    "mpc s = M_Wait 5000000000" "5000000000 \<le> clock s"
    "\<not> waitCh_closed (heap s ! intervalHandler s)" "mu s = None" "cycle s = 0"
    by blast
  from C4_timeout_proceeds [OF s(1-5)] s(6,7)
  obtain s1 s2 s3 s4 s5 where "step test_lib s (Select ViaDone) = None"
    "step test_lib s (Select ViaTimer) = Some s1" "step test_lib s1 Main = Some s2"
    "step test_lib s2 Main = Some s3" "step test_lib s3 Main = Some s4"
    "step test_lib s4 Main = Some s5" "mpc s5 = M_New" "cycle s5 = 1"
    "workers s5 = workers s" "heap s5 = heap s"
    by (elim conjE exE) (simp, elim conjE exE, simp)
  with s have free: "\<exists>s s1 s2 s3 s4 s5. run test_lib sched_late init = Some s \<and> status s = Running
      \<and> mpc s = M_Wait 5000000000 \<and> 5000000000 \<le> clock s
      \<and> \<not> waitCh_closed (heap s ! intervalHandler s) \<and> mu s = None
      \<and> step test_lib s (Select ViaDone) = None
      \<and> step test_lib s (Select ViaTimer) = Some s1 \<and> step test_lib s1 Main = Some s2
      \<and> step test_lib s2 Main = Some s3 \<and> step test_lib s3 Main = Some s4
      \<and> step test_lib s4 Main = Some s5 \<and> mpc s5 = M_New \<and> cycle s5 = 1
      \<and> workers s5 = workers s \<and> heap s5 = heap s"
    by blast
  have "\<exists>u. run test_lib sched_wait_locked init = Some u \<and> status u = Running
     \<and> mpc u = M_Wait 5000000000 \<and> 5000000000 \<le> clock u
     \<and> \<not> waitCh_closed (heap u ! intervalHandler u) \<and> mu u = Some (T_worker 0) \<and> cycle u = 0"
    by (simp add: sched_wait_locked_def eval_defs)
  then obtain u where u: "run test_lib sched_wait_locked init = Some u" "status u = Running"
    "mpc u = M_Wait 5000000000" "5000000000 \<le> clock u"
    "\<not> waitCh_closed (heap u ! intervalHandler u)" "mu u = Some (T_worker 0)" "cycle u = 0"
    by blast
  from C4_timeout_proceeds [OF u(1-5)] u(6,7)
  obtain u1 u2 n us t u5 where "step test_lib u (Select ViaTimer) = Some u1"
    "step test_lib u1 Main = Some u2" "step test_lib u2 Main = None"
    "T_worker 0 = T_worker n" "us = [Worker n] \<or> us = [Worker n, Worker n]"
    "run test_lib us u2 = Some t" "mu t = None" "run test_lib [Main, Main, Main] t = Some u5"
    "mpc u5 = M_New" "cycle u5 = 1" "heap u5 = heap u"
    by (elim conjE exE) (simp, elim conjE exE, simp)
  with u have "\<exists>s s1 s2 us t s5. run test_lib sched_wait_locked init = Some s \<and> status s = Running
      \<and> mpc s = M_Wait 5000000000 \<and> 5000000000 \<le> clock s
      \<and> \<not> waitCh_closed (heap s ! intervalHandler s) \<and> mu s = Some (T_worker 0)
      \<and> step test_lib s (Select ViaTimer) = Some s1 \<and> step test_lib s1 Main = Some s2
      \<and> step test_lib s2 Main = None
      \<and> (us = [Worker 0] \<or> us = [Worker 0, Worker 0]) \<and> run test_lib us s2 = Some t
      \<and> mu t = None \<and> run test_lib [Main, Main, Main] t = Some s5 \<and> mpc s5 = M_New
      \<and> cycle s5 = 1 \<and> heap s5 = heap s"
    by (intro exI [of _ u] exI [of _ u1] exI [of _ u2] exI [of _ us] exI [of _ t] exI [of _ u5]) simp
  with free show ?thesis by blast
qed

text \<open>
  Claim C5. The cadence is 5 seconds and the batch size 10. In every reachable
  state there is one handler per iteration begun, the current one the newest; the
  units launched on a handler have the indices 0, 1, ... in order, all ten of them
  once the loop is through, and each unit holds the handler of its own iteration;
  the countdown of a handler is 10 minus the number of its finished units; a
  channel is closed only by the monitor of its own handler, which has then
  finished, and only with the countdown at zero; the process never panics, so no
  channel is closed twice and no countdown becomes negative. An iteration starts by
  allocating a handler at a new address that no unit and no monitor refers to, with
  the countdown set to 10 and the channel open; and a monitor waiting on a
  countdown of zero closes its channel in its next two steps.
\<close>

theorem C5_fresh_batch_each_cycle:
  assumes "run lib sched init = Some s"
  shows "FetchInterval * Second = 5000000000 \<and> FetchesAmount = 10
       \<and> status s \<noteq> Panicked
       \<and> length (heap s) = (if mpc s = M_New then cycle s else cycle s + 1)
       \<and> (mpc s \<noteq> M_New \<longrightarrow> intervalHandler s = cycle s)
       \<and> (\<forall>h. map w_index (on_handler h (workers s)) = [0..<launched s h])
       \<and> (monitored_now (mpc s) \<longrightarrow>
            map w_index (on_handler (intervalHandler s) (workers s)) = [0..<10])
       \<and> (\<forall>n < length (workers s). w_wg (workers s ! n) = w_cycle (workers s ! n))
       \<and> (\<forall>h < length (heap s).
            wg (heap s ! h) + int (finished h (workers s)) = (if added s h then 10 else 0))
       \<and> (\<forall>m < length (monitors s). m_handler (monitors s ! m) = m \<and>
            (waitCh_closed (heap s ! m) \<longleftrightarrow> m_pc (monitors s ! m) = Mon_Done) \<and>
            (m_pc (monitors s ! m) \<noteq> Mon_Wait \<longrightarrow> wg (heap s ! m) = 0))
       \<and> (\<forall>h < length (heap s). length (monitors s) \<le> h \<longrightarrow> \<not> waitCh_closed (heap s ! h))
       \<and> (status s = Running \<and> mpc s = M_New \<longrightarrow>
            (\<exists>s1 s2. step lib s Main = Some s1 \<and> step lib s1 Main = Some s2 \<and>
               intervalHandler s2 = length (heap s) \<and>
               heap s2 = heap s @ [\<lparr>wg = 10, waitCh_closed = False\<rparr>] \<and>
               on_handler (intervalHandler s2) (workers s2) = [] \<and>
               (\<forall>m < length (monitors s2). m_handler (monitors s2 ! m) \<noteq> intervalHandler s2)))
       \<and> (\<forall>m < length (monitors s).
            status s = Running \<and> m_pc (monitors s ! m) = Mon_Wait \<and> wg (heap s ! m) = 0 \<longrightarrow>
              (\<exists>s1 s2. step lib s (Monitor m) = Some s1 \<and> step lib s1 (Monitor m) = Some s2 \<and>
                 waitCh_closed (heap s2 ! m) \<and> m_pc (monitors s2 ! m) = Mon_Done \<and>
                 status s2 = Running))"
proof -
  from assms have i: "mu_inv s" "heap_inv s" "units_inv s" "wg_inv s" "mon_inv s"
    and np: "status s \<noteq> Panicked"
    using reachable_inv [of lib sched s] by (simp_all add: inv_def)
  have c: "FetchInterval * Second = 5000000000 \<and> FetchesAmount = 10"
    by (simp add: FetchInterval_def Second_def FetchesAmount_def)
  have len: "length (heap s) = (if mpc s = M_New then cycle s else cycle s + 1)"
    using heap_inv_length [OF i(2)] by simp
  have cur: "mpc s \<noteq> M_New \<longrightarrow> intervalHandler s = cycle s"
    using heap_inv_current [OF i(2)] by simp
  have units: "\<forall>h. map w_index (on_handler h (workers s)) = [0..<launched s h]"
    using i(3) by (simp add: units_inv_def)
  have ten: "monitored_now (mpc s) \<longrightarrow>
      map w_index (on_handler (intervalHandler s) (workers s)) = [0..<10]"
  proof
    assume m: "monitored_now (mpc s)"
    then have "mpc s \<noteq> M_New" by auto
    with cur have "intervalHandler s = cycle s" by simp
    moreover from m have "launched s (cycle s) = 10"
      by (cases "mpc s") (simp_all add: launched_def FetchesAmount_def)
    ultimately show "map w_index (on_handler (intervalHandler s) (workers s)) = [0..<10]"
      using units by simp
  qed
  have own: "\<forall>n < length (workers s). w_wg (workers s ! n) = w_cycle (workers s ! n)"
    using heap_inv_w_cycle [OF i(2)] by simp
  have cnt: "\<forall>h < length (heap s).
      wg (heap s ! h) + int (finished h (workers s)) = (if added s h then 10 else 0)"
    using i(4) by (simp add: wg_inv_def FetchesAmount_def)
  have mon: "\<forall>m < length (monitors s). m_handler (monitors s ! m) = m \<and>
      (waitCh_closed (heap s ! m) \<longleftrightarrow> m_pc (monitors s ! m) = Mon_Done) \<and>
      (m_pc (monitors s ! m) \<noteq> Mon_Wait \<longrightarrow> wg (heap s ! m) = 0)"
    using i(5) by (simp add: mon_inv_def)
  have open_ch: "\<forall>h < length (heap s). length (monitors s) \<le> h \<longrightarrow> \<not> waitCh_closed (heap s ! h)"
    using i(5) by (simp add: mon_inv_def)
  have fresh: "status s = Running \<and> mpc s = M_New \<longrightarrow>
      (\<exists>s1 s2. step lib s Main = Some s1 \<and> step lib s1 Main = Some s2 \<and>
         intervalHandler s2 = length (heap s) \<and>
         heap s2 = heap s @ [\<lparr>wg = 10, waitCh_closed = False\<rparr>] \<and>
         on_handler (intervalHandler s2) (workers s2) = [] \<and>
         (\<forall>m < length (monitors s2). m_handler (monitors s2 ! m) \<noteq> intervalHandler s2))"
  proof
    assume a: "status s = Running \<and> mpc s = M_New"
    have w: "on_handler (length (heap s)) (workers s) = []"
      using heap_inv_wg [OF i(2)] by (fastforce simp: on_handler_def filter_empty_conv)
    from a i(5) have "length (monitors s) = cycle s" by (simp add: mon_inv_def)
    with a len mon have m: "\<forall>m < length (monitors s). m_handler (monitors s ! m) \<noteq> length (heap s)"
      by simp
    from a w m show "\<exists>s1 s2. step lib s Main = Some s1 \<and> step lib s1 Main = Some s2 \<and>
         intervalHandler s2 = length (heap s) \<and>
         heap s2 = heap s @ [\<lparr>wg = 10, waitCh_closed = False\<rparr>] \<and>
         on_handler (intervalHandler s2) (workers s2) = [] \<and>
         (\<forall>m < length (monitors s2). m_handler (monitors s2 ! m) \<noteq> intervalHandler s2)"
      by (simp add: step_def main_step_def wg_Add_def continue_def FetchesAmount_def)
  qed
  have closes: "\<forall>m < length (monitors s).
      status s = Running \<and> m_pc (monitors s ! m) = Mon_Wait \<and> wg (heap s ! m) = 0 \<longrightarrow>
        (\<exists>s1 s2. step lib s (Monitor m) = Some s1 \<and> step lib s1 (Monitor m) = Some s2 \<and>
           waitCh_closed (heap s2 ! m) \<and> m_pc (monitors s2 ! m) = Mon_Done \<and>
           status s2 = Running)"
  proof (intro allI impI)
    fix m
    assume m: "m < length (monitors s)"
      and a: "status s = Running \<and> m_pc (monitors s ! m) = Mon_Wait \<and> wg (heap s ! m) = 0"
    from m mon a have h: "m_handler (monitors s ! m) = m" "\<not> waitCh_closed (heap s ! m)"
      by auto
    from inv_monitor_heap [OF i(5) i(2) m] have "m < length (heap s)" .
    with m a h show "\<exists>s1 s2. step lib s (Monitor m) = Some s1 \<and> step lib s1 (Monitor m) = Some s2 \<and>
           waitCh_closed (heap s2 ! m) \<and> m_pc (monitors s2 ! m) = Mon_Done \<and>
           status s2 = Running"
      by (simp add: step_def monitor_step_def set_mpc_def close_waitCh_def continue_def)
  qed
  from c np len cur units ten own cnt mon open_ch fresh closes show ?thesis
    by blast
qed

theorem C5_fresh_batch_each_cycle_witness:
  "\<exists>s s1 s2. run test_lib sched_released init = Some s \<and> status s = Running
     \<and> monitored_now (mpc s) \<and> (0::nat) < length (monitors s) \<and> (0::nat) < length (heap s)
     \<and> m_pc (monitors s ! 0) = Mon_Wait \<and> wg (heap s ! 0) = 0
     \<and> map w_index (on_handler (intervalHandler s) (workers s)) = [0..<10]
     \<and> step test_lib s (Monitor 0) = Some s1 \<and> step test_lib s1 (Monitor 0) = Some s2
     \<and> waitCh_closed (heap s2 ! 0)"
proof -
  have "\<exists>s. run test_lib sched_released init = Some s \<and> status s = Running
     \<and> monitored_now (mpc s) \<and> (0::nat) < length (monitors s) \<and> (0::nat) < length (heap s)
     \<and> m_pc (monitors s ! 0) = Mon_Wait \<and> wg (heap s ! 0) = 0"
    by (simp add: sched_released_def eval_defs)
  then obtain s where s: "run test_lib sched_released init = Some s" "status s = Running"
    "monitored_now (mpc s)" "0 < length (monitors s)" "0 < length (heap s)"
    "m_pc (monitors s ! 0) = Mon_Wait" "wg (heap s ! 0) = 0"
    by blast
  note T = C5_fresh_batch_each_cycle [OF s(1)]
  from T have "monitored_now (mpc s) \<longrightarrow>
      map w_index (on_handler (intervalHandler s) (workers s)) = [0..<10]"
    by (elim conjE)
  with s(3) have ten: "map w_index (on_handler (intervalHandler s) (workers s)) = [0..<10]"
    by simp
  from T have "\<forall>m < length (monitors s).
      status s = Running \<and> m_pc (monitors s ! m) = Mon_Wait \<and> wg (heap s ! m) = 0 \<longrightarrow>
        (\<exists>s1 s2. step test_lib s (Monitor m) = Some s1 \<and> step test_lib s1 (Monitor m) = Some s2 \<and>
           waitCh_closed (heap s2 ! m) \<and> m_pc (monitors s2 ! m) = Mon_Done \<and>
           status s2 = Running)"
    by (elim conjE)
  with s(2,4,6,7) obtain s1 s2 where "step test_lib s (Monitor 0) = Some s1"
    "step test_lib s1 (Monitor 0) = Some s2" "waitCh_closed (heap s2 ! 0)"
    by blast
  with s ten show ?thesis by blast
qed

text \<open>
  Claim C6 fails on the timeout notice: line 61 calls \<^verbatim>\<open>log.Println\<close> without
  taking the mutex. In this run unit 0 holds the mutex, about to print its report,
  when the timer fires and the coordinator prints the notice.
\<close>

theorem C6_timeout_notice_outside_lock:
  "run test_lib sched_timeout_locked init \<noteq> None
   \<and> last (out (the (run test_lib sched_timeout_locked init))) =
       \<lparr>ev = TimeoutNotice, caller = T_main, lock_holder = Some (T_worker 0), of_cycle = 0\<rparr>
   \<and> mu (the (run test_lib sched_timeout_locked init)) = Some (T_worker 0)
   \<and> holds_lock (w_pc (workers (the (run test_lib sched_timeout_locked init)) ! 0))"
  by (simp add: sched_timeout_locked_def eval_defs)

text \<open>
  Claim C8. Within every cycle the begin marker is printed before any diagnostic
  line of a fetch unit of that cycle: in the output of every run, each unit report
  is preceded by the begin marker of the iteration in which the reporting unit was
  launched; both were printed by a goroutine holding the mutex; and a unit exists
  only once the begin marker of its iteration is in the output.
\<close>

theorem C8_begin_before_reports:
  assumes "run lib sched init = Some s"
  shows "(\<forall>j < length (out s). \<forall>info. ev (out s ! j) = UnitReport info \<longrightarrow>
            (\<exists>i < j. ev (out s ! i) = BeginMarker \<and> of_cycle (out s ! i) = of_cycle (out s ! j) \<and>
               caller (out s ! i) = T_main \<and> lock_holder (out s ! i) = Some T_main) \<and>
            lock_holder (out s ! j) = Some (caller (out s ! j)) \<and>
            (\<exists>n < length (workers s). caller (out s ! j) = T_worker n \<and>
               w_cycle (workers s ! n) = of_cycle (out s ! j)))
       \<and> (\<forall>n < length (workers s). \<exists>e \<in> set (out s). ev e = BeginMarker \<and>
            of_cycle e = w_cycle (workers s ! n) \<and> lock_holder e = Some T_main)"
proof -
  from assms have b: "begin_inv s" by (simp add: reachable_inv)
  have 1: "\<exists>i < j. ev (es ! i) = BeginMarker \<and> of_cycle (es ! i) = c \<and>
      caller (es ! i) = T_main \<and> lock_holder (es ! i) = Some T_main"
    if "has_begin c (take j es)" for c j and es :: "entry list"
  proof -
    from that obtain e where e: "e \<in> set (take j es)" "ev e = BeginMarker" "of_cycle e = c"
      "caller e = T_main" "lock_holder e = Some T_main"
      by (auto simp: has_begin_def)
    from e(1) obtain i where "i < length (take j es)" "take j es ! i = e"
      by (auto simp: in_set_conv_nth)
    then have "i < j" "es ! i = e" by simp_all
    with e show ?thesis by blast
  qed
  have "\<forall>j < length (out s). \<forall>info. ev (out s ! j) = UnitReport info \<longrightarrow>
            (\<exists>i < j. ev (out s ! i) = BeginMarker \<and> of_cycle (out s ! i) = of_cycle (out s ! j) \<and>
               caller (out s ! i) = T_main \<and> lock_holder (out s ! i) = Some T_main) \<and>
            lock_holder (out s ! j) = Some (caller (out s ! j)) \<and>
            (\<exists>n < length (workers s). caller (out s ! j) = T_worker n \<and>
               w_cycle (workers s ! n) = of_cycle (out s ! j))"
  proof (intro allI impI)
    fix j info
    assume j: "j < length (out s)" and r: "ev (out s ! j) = UnitReport info"
    with b have h: "has_begin (of_cycle (out s ! j)) (take j (out s))"
      and l: "lock_holder (out s ! j) = Some (caller (out s ! j))"
      and n: "\<exists>n < length (workers s). caller (out s ! j) = T_worker n \<and>
           w_cycle (workers s ! n) = of_cycle (out s ! j)"
      by (simp_all add: begin_inv_def)
    from 1 [OF h] l n show "(\<exists>i < j. ev (out s ! i) = BeginMarker \<and> of_cycle (out s ! i) = of_cycle (out s ! j) \<and>
               caller (out s ! i) = T_main \<and> lock_holder (out s ! i) = Some T_main) \<and>
            lock_holder (out s ! j) = Some (caller (out s ! j)) \<and>
            (\<exists>n < length (workers s). caller (out s ! j) = T_worker n \<and>
               w_cycle (workers s ! n) = of_cycle (out s ! j))"
      by blast
  qed
  moreover from b have "\<forall>n < length (workers s). \<exists>e \<in> set (out s). ev e = BeginMarker \<and>
            of_cycle e = w_cycle (workers s ! n) \<and> lock_holder e = Some T_main"
    by (auto simp: begin_inv_def has_begin_def)
  ultimately show ?thesis by blast
qed

theorem C8_begin_before_reports_witness:
  "\<exists>s info. run test_lib sched_report init = Some s \<and> (1::nat) < length (out s)
     \<and> ev (out s ! 1) = UnitReport info \<and> ev (out s ! 0) = BeginMarker
     \<and> of_cycle (out s ! 0) = of_cycle (out s ! 1)
     \<and> lock_holder (out s ! 1) = Some (caller (out s ! 1))"
proof -
  have "\<exists>s info. run test_lib sched_report init = Some s \<and> (1::nat) < length (out s)
     \<and> ev (out s ! 1) = UnitReport info"
    by (simp add: sched_report_def eval_defs)
  then obtain s info where s: "run test_lib sched_report init = Some s" "1 < length (out s)"
    "ev (out s ! 1) = UnitReport info"
    by blast
  from C8_begin_before_reports [OF s(1)]
  have "\<forall>j < length (out s). \<forall>info. ev (out s ! j) = UnitReport info \<longrightarrow>
      (\<exists>i < j. ev (out s ! i) = BeginMarker \<and> of_cycle (out s ! i) = of_cycle (out s ! j) \<and>
         caller (out s ! i) = T_main \<and> lock_holder (out s ! i) = Some T_main) \<and>
      lock_holder (out s ! j) = Some (caller (out s ! j)) \<and>
      (\<exists>n < length (workers s). caller (out s ! j) = T_worker n \<and>
         w_cycle (workers s ! n) = of_cycle (out s ! j))"
    by (elim conjE)
  with s(2,3) have "(\<exists>i < 1. ev (out s ! i) = BeginMarker \<and> of_cycle (out s ! i) = of_cycle (out s ! 1))
      \<and> lock_holder (out s ! 1) = Some (caller (out s ! 1))"
    by blast
  then have "ev (out s ! 0) = BeginMarker \<and> of_cycle (out s ! 0) = of_cycle (out s ! 1)
      \<and> lock_holder (out s ! 1) = Some (caller (out s ! 1))"
    by simp
  with s show ?thesis by blast
qed

text \<open>
  Claim C9 as stated fails: a response without \<^verbatim>\<open>Content-Encoding\<close> whose body is
  the uncompressed JSON text \<^verbatim>\<open>{          }\<close>, which the decoder would accept, ends in
  the fatal error of the decompression step.
\<close>

theorem C9_counterexample:
  "apiQueryWorker_decode test_lib 0 0 plain_resp =
     Fatalf ''Failed to read compressed body content: failed to create gzip reader: gzip: invalid header''
   \<and> resp_Header plain_resp ''Content-Encoding'' = None
   \<and> Body plain_resp = Inr ''{          }''
   \<and> json_Valid test_lib ''{          }''
   \<and> json_Unmarshal test_lib ''{          }'' = Inr \<lparr>Rates = []\<rparr>"
  by (simp add: plain_resp_def eval_defs)

text \<open>
  Claim C9, as amended. The fetch unit applies the gzip decompression to every
  response body, whatever the header of the response says: changing the header
  changes nothing but the reported content type. A body that is not a gzip stream
  makes the unit fail in the decompression step, and a report is produced only from
  a body that the gzip reader accepted.
\<close>

theorem C9_decompress_unconditionally:
  "(\<forall>bs. Body resp = Inr bs \<and>
       (length bs < 10 \<or> bs ! 0 \<noteq> CHR 0x1F \<or> bs ! 1 \<noteq> CHR 0x8B \<or> bs ! 2 \<noteq> CHR 0x08) \<longrightarrow>
       (\<exists>err. apiQueryWorker_decode lib i el resp =
          Fatalf (''Failed to read compressed body content: failed to create gzip reader: '' @ err)))
   \<and> (\<forall>info. apiQueryWorker_decode lib i el resp = Fetched info \<longrightarrow>
        (\<exists>bs content. Body resp = Inr bs \<and> gzip_NewReader lib bs = None \<and>
           gzip_ReadAll lib bs = Inr content \<and> isJsonValid info = json_Valid lib content))
   \<and> apiQueryWorker_decode lib i el (resp\<lparr>resp_Header := hdr\<rparr>) =
       (case apiQueryWorker_decode lib i el resp of
          Fatalf msg \<Rightarrow> Fatalf msg
        | Fetched info \<Rightarrow> Fetched (info\<lparr>contentType := Header_Get hdr ''Content-Type''\<rparr>))"
proof -
  have a: "\<forall>bs. Body resp = Inr bs \<and>
       (length bs < 10 \<or> bs ! 0 \<noteq> CHR 0x1F \<or> bs ! 1 \<noteq> CHR 0x8B \<or> bs ! 2 \<noteq> CHR 0x08) \<longrightarrow>
       (\<exists>err. apiQueryWorker_decode lib i el resp =
          Fatalf (''Failed to read compressed body content: failed to create gzip reader: '' @ err))"
    by (auto simp: apiQueryWorker_decode_def decompressGzippedResponse_def gzip_NewReader_def Let_def)
  have b: "\<forall>info. apiQueryWorker_decode lib i el resp = Fetched info \<longrightarrow>
        (\<exists>bs content. Body resp = Inr bs \<and> gzip_NewReader lib bs = None \<and>
           gzip_ReadAll lib bs = Inr content \<and> isJsonValid info = json_Valid lib content)"
    by (auto simp: apiQueryWorker_decode_def decompressGzippedResponse_def Let_def
        split: sum.splits option.splits)
  have c: "apiQueryWorker_decode lib i el (resp\<lparr>resp_Header := hdr\<rparr>) =
       (case apiQueryWorker_decode lib i el resp of
          Fatalf msg \<Rightarrow> Fatalf msg
        | Fetched info \<Rightarrow> Fetched (info\<lparr>contentType := Header_Get hdr ''Content-Type''\<rparr>))"
    by (simp add: apiQueryWorker_decode_def decompressGzippedResponse_def Let_def
        split: sum.splits option.splits)
  from a b c show ?thesis by blast
qed

theorem C9_decompress_unconditionally_witness:
  "Body plain_resp = Inr ''{          }'' \<and> ''{          }'' ! 0 \<noteq> CHR 0x1F
   \<and> (\<exists>err. apiQueryWorker_decode test_lib 0 0 plain_resp =
         Fatalf (''Failed to read compressed body content: failed to create gzip reader: '' @ err))
   \<and> (\<exists>info. apiQueryWorker_decode test_lib 0 0 test_resp = Fetched info
         \<and> gzip_NewReader test_lib test_body = None \<and> isJsonValid info)"
proof -
  have b: "Body plain_resp = Inr ''{          }''" "''{          }'' ! 0 \<noteq> CHR 0x1F"
    by (simp_all add: plain_resp_def)
  from C9_decompress_unconditionally [of plain_resp test_lib 0 0 Map.empty]
  have "\<forall>bs. Body plain_resp = Inr bs \<and>
       (length bs < 10 \<or> bs ! 0 \<noteq> CHR 0x1F \<or> bs ! 1 \<noteq> CHR 0x8B \<or> bs ! 2 \<noteq> CHR 0x08) \<longrightarrow>
       (\<exists>err. apiQueryWorker_decode test_lib 0 0 plain_resp =
          Fatalf (''Failed to read compressed body content: failed to create gzip reader: '' @ err))"
    by (elim conjE)
  with b have 1: "\<exists>err. apiQueryWorker_decode test_lib 0 0 plain_resp =
      Fatalf (''Failed to read compressed body content: failed to create gzip reader: '' @ err)"
    by blast
  have f: "\<exists>info. apiQueryWorker_decode test_lib 0 0 test_resp = Fetched info"
    by (simp add: eval_defs)
  then obtain info where i: "apiQueryWorker_decode test_lib 0 0 test_resp = Fetched info" ..
  from C9_decompress_unconditionally [of test_resp test_lib 0 0 Map.empty]
  have "\<forall>info. apiQueryWorker_decode test_lib 0 0 test_resp = Fetched info \<longrightarrow>
        (\<exists>bs content. Body test_resp = Inr bs \<and> gzip_NewReader test_lib bs = None \<and>
           gzip_ReadAll test_lib bs = Inr content \<and> isJsonValid info = json_Valid test_lib content)"
    by (elim conjE)
  with i obtain bs content where "Body test_resp = Inr bs" "gzip_NewReader test_lib bs = None"
    "gzip_ReadAll test_lib bs = Inr content" "isJsonValid info = json_Valid test_lib content"
    by blast
  then have "gzip_NewReader test_lib test_body = None \<and> isJsonValid info"
    by (auto simp: test_resp_def test_lib_def test_body_def)
  with b 1 i show ?thesis by blast
qed

text \<open>
  Claim C10. Every unit report that is emitted carries a true payload-validity
  flag: \<^verbatim>\<open>json.Valid\<close> and \<^verbatim>\<open>json.Unmarshal\<close> are applied to the same content, and
  when the content is not valid JSON the decode step fails and the unit ends in
  \<^verbatim>\<open>log.Fatalf\<close> before the report call is reached. \<^verbatim>\<open>json.Unmarshal\<close> checks the
  syntax of its input before decoding; this behaviour of the library is the
  hypothesis \<open>decoder_checks_syntax\<close>.
\<close>

theorem C10_report_valid:
  assumes "run lib sched init = Some s" and "decoder_checks_syntax lib"
  shows "(\<forall>j < length (out s). \<forall>info. ev (out s ! j) = UnitReport info \<longrightarrow> isJsonValid info)
       \<and> (\<forall>i el resp content. decompressGzippedResponse lib resp = Inr content \<longrightarrow>
            \<not> json_Valid lib content \<longrightarrow> (\<exists>msg. apiQueryWorker_decode lib i el resp = Fatalf msg))"
proof -
  from assms have v: "valid_inv s" by (rule reachable_valid)
  have "\<forall>j < length (out s). \<forall>info. ev (out s ! j) = UnitReport info \<longrightarrow> isJsonValid info"
  proof (intro allI impI)
    fix j info
    assume "j < length (out s)" "ev (out s ! j) = UnitReport info"
    with v have "ev_valid (UnitReport info)" by (auto simp: valid_inv_def)
    then show "isJsonValid info" by simp
  qed
  moreover have "\<exists>msg. apiQueryWorker_decode lib i el resp = Fatalf msg"
    if "decompressGzippedResponse lib resp = Inr content" "\<not> json_Valid lib content"
    for i el resp content
  proof (cases "apiQueryWorker_decode lib i el resp")
    case (Fatalf msg)
    then show ?thesis by blast
  next
    case (Fetched info)
    with assms(2) have "isJsonValid info" by (intro decode_valid)
    with Fetched that show ?thesis
      by (auto simp: apiQueryWorker_decode_def Let_def split: sum.splits)
  qed
  ultimately show ?thesis by blast
qed

theorem C10_report_valid_witness:
  "\<exists>s info. run test_lib sched_report init = Some s \<and> (1::nat) < length (out s)
     \<and> ev (out s ! 1) = UnitReport info \<and> isJsonValid info"
proof -
  have "\<exists>s info. run test_lib sched_report init = Some s \<and> (1::nat) < length (out s)
     \<and> ev (out s ! 1) = UnitReport info"
    by (simp add: sched_report_def eval_defs)
  then obtain s info where s: "run test_lib sched_report init = Some s" "1 < length (out s)"
    "ev (out s ! 1) = UnitReport info"
    by blast
  from C10_report_valid [OF s(1) test_lib_checks_syntax]
  have "\<forall>j < length (out s). \<forall>info. ev (out s ! j) = UnitReport info \<longrightarrow> isJsonValid info"
    by (elim conjE)
  with s(2,3) have "isJsonValid info" by blast
  with s show ?thesis by blast
qed

end
